theory Spec2Isabelle
  imports Complex_Main "HOL-Library.Monad_Syntax"
begin

section \<open>The Kaleidoscope front end: lexer, parser and driver\<close>

text \<open>
  The repository holds two builds of the same front end: \<^verbatim>\<open>src/main.cpp\<close> (lexer, parser and a
  driver that only reports what it parsed) and a second file that adds code generation and a JIT.
  Lexer and parser of the two are the same text except in three places, which the model
  distinguishes by a parameter of type \<open>source_file\<close>:
  \<^item> \<^verbatim>\<open>gettok\<close> of \<^verbatim>\<open>main.cpp\<close> starts with
    \<^verbatim>\<open>if (LastChar == '\n') { LastChar = ' '; return ';'; }\<close>, the other file has no such test;
  \<^item> the argument loop of \<^verbatim>\<open>ParseIdentifierExpr\<close> tests \<^verbatim>\<open>CurTok != '.'\<close> in
    \<^verbatim>\<open>main.cpp\<close> and \<^verbatim>\<open>CurTok != ','\<close> in the other file;
  \<^item> \<^verbatim>\<open>ParseTopLevelExpr\<close> names the anonymous function \<^verbatim>\<open>""\<close> in \<^verbatim>\<open>main.cpp\<close> and
    \<^verbatim>\<open>"__anon_expr"\<close> in the other file.
\<close>

datatype source_file = main_cpp | jit_cpp

subsection \<open>Characters and the C library\<close>

text \<open>
  A \<^verbatim>\<open>char\<close> is a byte; \<^verbatim>\<open>LastChar\<close> and \<^verbatim>\<open>CurTok\<close> are \<^verbatim>\<open>int\<close>. \<open>ord\<close> is the conversion
  from \<^verbatim>\<open>char\<close> to \<^verbatim>\<open>int\<close> with \<^verbatim>\<open>char\<close> signed (as on x86-64), \<open>chr\<close> the conversion back.
  The \<^verbatim>\<open>ctype.h\<close> predicates are those of the "C" locale; they are false on \<^verbatim>\<open>EOF\<close> and on the
  negative values of the bytes above \<^verbatim>\<open>0x7F\<close>.
\<close>

definition ord :: "char \<Rightarrow> int" where
  "ord c = (if of_char c < (128::int) then of_char c else of_char c - 256)"

definition chr :: "int \<Rightarrow> char" where
  "chr i = char_of i"

abbreviation EOF :: int where "EOF \<equiv> - 1"

definition isspace :: "int \<Rightarrow> bool" where
  "isspace c \<longleftrightarrow> c = 32 \<or> (9 \<le> c \<and> c \<le> 13)"

definition isalpha :: "int \<Rightarrow> bool" where
  "isalpha c \<longleftrightarrow> (65 \<le> c \<and> c \<le> 90) \<or> (97 \<le> c \<and> c \<le> 122)"

definition isdigit :: "int \<Rightarrow> bool" where
  "isdigit c \<longleftrightarrow> 48 \<le> c \<and> c \<le> 57"

definition isalnum :: "int \<Rightarrow> bool" where
  "isalnum c \<longleftrightarrow> isalpha c \<or> isdigit c"

definition isascii :: "int \<Rightarrow> bool" where
  "isascii c \<longleftrightarrow> 0 \<le> c \<and> c \<le> 127"

text \<open>
  \<^verbatim>\<open>strtod\<close> on the strings \<^verbatim>\<open>gettok\<close> hands to it, which hold digits and dots only: the
  value of the longest prefix of the form \<^verbatim>\<open>digits [. digits]\<close> with at least one digit, and
  zero when there is no such prefix (no conversion is performed). The value is the exact
  decimal; the rounding to \<^verbatim>\<open>double\<close> is left out.
\<close>

definition decimal :: "string \<Rightarrow> nat" where
  "decimal ds = foldl (\<lambda>a c. 10 * a + (of_char c - 48)) 0 ds"

definition strtod :: "string \<Rightarrow> real" where
  "strtod str =
    (let ip = takeWhile (\<lambda>c. isdigit (ord c)) str;
         rest = dropWhile (\<lambda>c. isdigit (ord c)) str;
         fp = (case rest of [] \<Rightarrow> []
               | c # r \<Rightarrow> if c = CHR ''.'' then takeWhile (\<lambda>c. isdigit (ord c)) r else [])
     in if ip = [] \<and> fp = [] then 0
        else real (decimal ip) + real (decimal fp) / 10 ^ length fp)"

subsection \<open>The global state\<close>

text \<open>
  The static variables of the program, together with the two streams it uses: the bytes of
  \<^verbatim>\<open>std::cin\<close> not read yet with its \<^verbatim>\<open>good()\<close> flag, and what was written to \<^verbatim>\<open>stderr\<close>
  (one entry for each \<^verbatim>\<open>fprintf\<close>). \<^verbatim>\<open>Index\<close> is an \<^verbatim>\<open>unsigned int\<close>; it is a natural number
  here, lines of $2^{32}$ bytes being left out.
\<close>

record globals =
  cin :: string
  cin_good :: bool
  stderr :: "string list"
  Index :: nat
  Buf :: string
  LastChar :: int
  IdentifierStr :: string
  NumVal :: real
  CurTok :: int
  BinopPrecedence :: "char \<rightharpoonup> int"

definition initial :: "string \<Rightarrow> globals" where
  "initial input =
    \<lparr> cin = input, cin_good = True, stderr = [], Index = 0, Buf = [],
      LastChar = ord CHR '' '', IdentifierStr = [], NumVal = 0, CurTok = 0,
      BinopPrecedence = Map.empty \<rparr>"

subsection \<open>Lexer\<close>

abbreviation tok_eof :: int where "tok_eof \<equiv> - 1"
abbreviation tok_def :: int where "tok_def \<equiv> - 2"
abbreviation tok_extern :: int where "tok_extern \<equiv> - 3"
abbreviation tok_identifier :: int where "tok_identifier \<equiv> - 4"
abbreviation tok_number :: int where "tok_number \<equiv> - 5"

text \<open>
  \<^verbatim>\<open>std::getline(std::cin, Buf)\<close>: when the stream is good, \<^verbatim>\<open>Buf\<close> is erased and receives the
  bytes up to the next newline, which is extracted and dropped; when the end of the input is
  reached first, the stream is no longer good. When the stream is not good at the call,
  \<^verbatim>\<open>Buf\<close> is left as it is. The result of \<^verbatim>\<open>getline\<close> is not looked at by \<^verbatim>\<open>getBufChar\<close>.
\<close>

definition getline :: "globals \<Rightarrow> globals" where
  "getline g =
    (if cin_good g then
       (let line = takeWhile (\<lambda>c. c \<noteq> CHR ''\<newline>'') (cin g);
            rest = dropWhile (\<lambda>c. c \<noteq> CHR ''\<newline>'') (cin g)
        in case rest of
             [] \<Rightarrow> g\<lparr>Buf := line, cin := [], cin_good := False\<rparr>
           | _ # rest' \<Rightarrow> g\<lparr>Buf := line, cin := rest'\<rparr>)
     else g)"

definition getBufChar :: "globals \<Rightarrow> char \<times> globals" where
  "getBufChar g =
    (let g1 = (if length (Buf g) \<le> Index g
               then (let g' = getline (g\<lparr>stderr := stderr g @ [''ready > '']\<rparr>)
                     in g'\<lparr>Buf := Buf g' @ ''\<newline>'', Index := 0\<rparr>)
               else g)
     in (if Index g1 < length (Buf g1) then Buf g1 ! Index g1 else CHR 0x00,
         g1\<lparr>Index := Index g1 + 1\<rparr>))"

text \<open>
  The loops of \<^verbatim>\<open>gettok\<close>. Each of them, and \<^verbatim>\<open>gettok\<close> itself, takes fuel: the number of
  nested calls and iterations it may still make. \<open>None\<close> says that the fuel ran out.
\<close>

text \<open>\<^verbatim>\<open>while (isspace(LastChar)) LastChar = getBufChar();\<close>\<close>

fun gettok_space :: "nat \<Rightarrow> globals \<Rightarrow> globals option" where
  "gettok_space 0 g = None"
| "gettok_space (Suc n) g =
    (if isspace (LastChar g)
     then (let (c, g1) = getBufChar g in gettok_space n (g1\<lparr>LastChar := ord c\<rparr>))
     else Some g)"

text \<open>\<^verbatim>\<open>while (isalnum((LastChar = getBufChar()))) IdentifierStr += LastChar;\<close>\<close>

fun gettok_identifier :: "nat \<Rightarrow> globals \<Rightarrow> globals option" where
  "gettok_identifier 0 g = None"
| "gettok_identifier (Suc n) g =
    (let (c, g1) = getBufChar g; g2 = g1\<lparr>LastChar := ord c\<rparr>
     in if isalnum (LastChar g2)
        then gettok_identifier n (g2\<lparr>IdentifierStr := IdentifierStr g2 @ [chr (LastChar g2)]\<rparr>)
        else Some g2)"

text \<open>\<^verbatim>\<open>do { NumStr += LastChar; LastChar = getBufChar(); } while (isdigit(LastChar) || LastChar == '.');\<close>\<close>

fun gettok_number :: "nat \<Rightarrow> string \<Rightarrow> globals \<Rightarrow> (string \<times> globals) option" where
  "gettok_number 0 NumStr g = None"
| "gettok_number (Suc n) NumStr g =
    (let NumStr' = NumStr @ [chr (LastChar g)];
         (c, g1) = getBufChar g; g2 = g1\<lparr>LastChar := ord c\<rparr>
     in if isdigit (LastChar g2) \<or> LastChar g2 = ord CHR ''.''
        then gettok_number n NumStr' g2
        else Some (NumStr', g2))"

text \<open>\<^verbatim>\<open>do LastChar = getBufChar(); while (LastChar != EOF && LastChar != '\n' && LastChar != '\r');\<close>\<close>

fun gettok_comment :: "nat \<Rightarrow> globals \<Rightarrow> globals option" where
  "gettok_comment 0 g = None"
| "gettok_comment (Suc n) g =
    (let (c, g1) = getBufChar g; g2 = g1\<lparr>LastChar := ord c\<rparr>
     in if LastChar g2 \<noteq> EOF \<and> LastChar g2 \<noteq> ord CHR ''\<newline>'' \<and> LastChar g2 \<noteq> ord (CHR 0x0D)
        then gettok_comment n g2
        else Some g2)"

fun gettok :: "source_file \<Rightarrow> nat \<Rightarrow> globals \<Rightarrow> (int \<times> globals) option" where
  "gettok f 0 g = None"
| "gettok f (Suc n) g =
    (if f = main_cpp \<and> LastChar g = ord CHR ''\<newline>''
     then Some (ord CHR '';'', g\<lparr>LastChar := ord CHR '' ''\<rparr>)
     else do {
       g1 \<leftarrow> gettok_space n g;
       if isalpha (LastChar g1) then do {
         g2 \<leftarrow> gettok_identifier n (g1\<lparr>IdentifierStr := [chr (LastChar g1)]\<rparr>);
         Some (if IdentifierStr g2 = ''def'' then tok_def
               else if IdentifierStr g2 = ''extern'' then tok_extern
               else tok_identifier, g2)
       }
       else if isdigit (LastChar g1) \<or> LastChar g1 = ord CHR ''.'' then do {
         (NumStr, g2) \<leftarrow> gettok_number n [] g1;
         Some (tok_number, g2\<lparr>NumVal := strtod NumStr\<rparr>)
       }
       else do {
         g2 \<leftarrow> (if LastChar g1 = ord CHR ''#'' then gettok_comment n g1 else Some g1);
         if LastChar g1 = ord CHR ''#'' \<and> LastChar g2 \<noteq> EOF then gettok f n g2
         else if LastChar g2 = EOF then Some (tok_eof, g2)
         else (let ThisChar = LastChar g2; (c, g3) = getBufChar g2
               in Some (ThisChar, g3\<lparr>LastChar := ord c\<rparr>))
       }
     })"

subsection \<open>Abstract syntax\<close>

datatype ExprAST =
    NumberExprAST real
  | VariableExprAST string
  | BinaryExprAST char ExprAST ExprAST
  | CallExprAST string "ExprAST list"

datatype PrototypeAST = PrototypeAST string "string list"

fun getName :: "PrototypeAST \<Rightarrow> string" where
  "getName (PrototypeAST Name Args) = Name"

datatype FunctionAST = FunctionAST PrototypeAST ExprAST

subsection \<open>Parser\<close>

text \<open>
  A parse function returns its result (\<open>None\<close> for \<^verbatim>\<open>nullptr\<close>) and the new state; the
  outer \<open>option\<close> is the fuel's. Messages go to \<^verbatim>\<open>stderr\<close>.
\<close>

definition getNextToken :: "source_file \<Rightarrow> nat \<Rightarrow> globals \<Rightarrow> (int \<times> globals) option" where
  "getNextToken f n g = do { (t, g1) \<leftarrow> gettok f n g; Some (t, g1\<lparr>CurTok := t\<rparr>) }"

definition LogError :: "string \<Rightarrow> globals \<Rightarrow> ExprAST option \<times> globals" where
  "LogError Str g = (None, g\<lparr>stderr := stderr g @ [''LogError: '' @ Str @ ''\<newline>'']\<rparr>)"

definition LogErrorP :: "string \<Rightarrow> globals \<Rightarrow> PrototypeAST option \<times> globals" where
  "LogErrorP Str g = (None, snd (LogError Str g))"

definition ParseNumberExpr :: "source_file \<Rightarrow> nat \<Rightarrow> globals \<Rightarrow> (ExprAST option \<times> globals) option" where
  "ParseNumberExpr f n g =
    (let Result = NumberExprAST (NumVal g)
     in do { (_, g1) \<leftarrow> getNextToken f n g; Some (Some Result, g1) })"

text \<open>
  \<^verbatim>\<open>BinopPrecedence[CurTok]\<close> is \<^verbatim>\<open>operator[]\<close> of \<^verbatim>\<open>std::map<char, int>\<close>: a key that is
  absent is inserted with the value 0.
\<close>

definition GetTokPrecedence :: "globals \<Rightarrow> int \<times> globals" where
  "GetTokPrecedence g =
    (if \<not> isascii (CurTok g) then (- 1, g)
     else (let k = chr (CurTok g);
               g1 = (case BinopPrecedence g k of
                       None \<Rightarrow> g\<lparr>BinopPrecedence := (BinopPrecedence g)(k \<mapsto> 0)\<rparr>
                     | Some _ \<Rightarrow> g);
               TokPrec = (case BinopPrecedence g1 k of None \<Rightarrow> 0 | Some p \<Rightarrow> p)
           in if TokPrec \<le> 0 then (- 1, g1) else (TokPrec, g1)))"

text \<open>
  \<open>ParseIdentifierExpr_args\<close> is the \<^verbatim>\<open>while (true)\<close> loop of \<^verbatim>\<open>ParseIdentifierExpr\<close>, and
  \<open>ParseBinOpRHS\<close> calls itself where the source goes round its \<^verbatim>\<open>while (1)\<close>.
\<close>

fun ParseParenExpr :: "source_file \<Rightarrow> nat \<Rightarrow> globals \<Rightarrow> (ExprAST option \<times> globals) option"
  and ParseIdentifierExpr :: "source_file \<Rightarrow> nat \<Rightarrow> globals \<Rightarrow> (ExprAST option \<times> globals) option"
  and ParseIdentifierExpr_args ::
    "source_file \<Rightarrow> nat \<Rightarrow> ExprAST list \<Rightarrow> globals \<Rightarrow> (ExprAST list option \<times> globals) option"
  and ParsePrimary :: "source_file \<Rightarrow> nat \<Rightarrow> globals \<Rightarrow> (ExprAST option \<times> globals) option"
  and ParseExpression :: "source_file \<Rightarrow> nat \<Rightarrow> globals \<Rightarrow> (ExprAST option \<times> globals) option"
  and ParseBinOpRHS ::
    "source_file \<Rightarrow> nat \<Rightarrow> int \<Rightarrow> ExprAST \<Rightarrow> globals \<Rightarrow> (ExprAST option \<times> globals) option"
where
  "ParseParenExpr f 0 g = None"
| "ParseParenExpr f (Suc n) g = do {
     (_, g1) \<leftarrow> getNextToken f n g;
     (V, g2) \<leftarrow> ParseExpression f n g1;
     case V of
       None \<Rightarrow> Some (None, g2)
     | Some V' \<Rightarrow>
         if CurTok g2 \<noteq> ord CHR '')'' then Some (LogError (''expected ')'' @ [CHR 0x27]) g2)
         else do { (_, g3) \<leftarrow> getNextToken f n g2; Some (Some V', g3) }
   }"
| "ParseIdentifierExpr f 0 g = None"
| "ParseIdentifierExpr f (Suc n) g =
    (let IdName = IdentifierStr g in do {
       (_, g1) \<leftarrow> getNextToken f n g;
       if CurTok g1 \<noteq> ord CHR ''('' then Some (Some (VariableExprAST IdName), g1)
       else do {
         (_, g2) \<leftarrow> getNextToken f n g1;
         (Args, g3) \<leftarrow> (if CurTok g2 \<noteq> ord CHR '')'' then ParseIdentifierExpr_args f n [] g2
                        else Some (Some [], g2));
         case Args of
           None \<Rightarrow> Some (None, g3)
         | Some Args' \<Rightarrow> do {
             (_, g4) \<leftarrow> getNextToken f n g3;
             Some (Some (CallExprAST IdName Args'), g4)
           }
       }
     })"
| "ParseIdentifierExpr_args f 0 Args g = None"
| "ParseIdentifierExpr_args f (Suc n) Args g = do {
     (Arg, g1) \<leftarrow> ParseExpression f n g;
     case Arg of
       None \<Rightarrow> Some (None, g1)
     | Some Arg' \<Rightarrow>
         (let Args' = Args @ [Arg'] in
          if CurTok g1 = ord CHR '')'' then Some (Some Args', g1)
          else if CurTok g1 \<noteq> ord (case f of main_cpp \<Rightarrow> CHR ''.'' | jit_cpp \<Rightarrow> CHR '','')
          then Some (None, snd (LogError ''expected ')' or ',' in argument list'' g1))
          else do { (_, g2) \<leftarrow> getNextToken f n g1; ParseIdentifierExpr_args f n Args' g2 })
   }"
| "ParsePrimary f 0 g = None"
| "ParsePrimary f (Suc n) g =
    (if CurTok g = tok_identifier then ParseIdentifierExpr f n g
     else if CurTok g = tok_number then ParseNumberExpr f n g
     else if CurTok g = ord CHR ''('' then ParseParenExpr f n g
     else Some (LogError ''unknown token'' g))"
| "ParseExpression f 0 g = None"
| "ParseExpression f (Suc n) g = do {
     (LHS, g1) \<leftarrow> ParsePrimary f n g;
     case LHS of
       None \<Rightarrow> Some (None, g1)
     | Some LHS' \<Rightarrow> ParseBinOpRHS f n 0 LHS' g1
   }"
| "ParseBinOpRHS f 0 ExprPrec LHS g = None"
| "ParseBinOpRHS f (Suc n) ExprPrec LHS g =
    (let (TokPrec, g1) = GetTokPrecedence g in
     if TokPrec < ExprPrec then Some (Some LHS, g1)
     else (let BinOp = CurTok g1 in do {
       (_, g2) \<leftarrow> getNextToken f n g1;
       (RHS, g3) \<leftarrow> ParsePrimary f n g2;
       case RHS of
         None \<Rightarrow> Some (None, g3)
       | Some RHS' \<Rightarrow>
           (let (NextPrec, g4) = GetTokPrecedence g3 in
            if TokPrec < NextPrec then do {
              (RHS, g5) \<leftarrow> ParseBinOpRHS f n TokPrec RHS' g4;
              case RHS of
                None \<Rightarrow> Some (None, g5)
              | Some RHS'' \<Rightarrow> ParseBinOpRHS f n ExprPrec (BinaryExprAST (chr BinOp) LHS RHS'') g5
            }
            else ParseBinOpRHS f n ExprPrec (BinaryExprAST (chr BinOp) LHS RHS') g4)
     }))"

text \<open>\<^verbatim>\<open>while (getNextToken() == tok_identifier) ArgNames.push_back(IdentifierStr);\<close>\<close>

fun ParsePrototype_args ::
  "source_file \<Rightarrow> nat \<Rightarrow> string list \<Rightarrow> globals \<Rightarrow> (string list \<times> globals) option" where
  "ParsePrototype_args f 0 ArgNames g = None"
| "ParsePrototype_args f (Suc n) ArgNames g = do {
     (t, g1) \<leftarrow> getNextToken f n g;
     if t = tok_identifier then ParsePrototype_args f n (ArgNames @ [IdentifierStr g1]) g1
     else Some (ArgNames, g1)
   }"

definition ParsePrototype ::
  "source_file \<Rightarrow> nat \<Rightarrow> globals \<Rightarrow> (PrototypeAST option \<times> globals) option" where
  "ParsePrototype f n g =
    (if CurTok g \<noteq> tok_identifier then Some (LogErrorP ''expected function name'' g)
     else (let FnName = IdentifierStr g in do {
       (_, g1) \<leftarrow> getNextToken f n g;
       if CurTok g1 \<noteq> ord CHR ''('' then Some (LogErrorP (''expected '('' @ [CHR 0x27]) g1)
       else do {
         (ArgNames, g2) \<leftarrow> ParsePrototype_args f n [] g1;
         if CurTok g2 \<noteq> ord CHR '')'' then Some (LogErrorP (''expected ')'' @ [CHR 0x27]) g2)
         else do {
           (_, g3) \<leftarrow> getNextToken f n g2;
           Some (Some (PrototypeAST FnName ArgNames), g3)
         }
       }
     }))"

definition ParseDefinition ::
  "source_file \<Rightarrow> nat \<Rightarrow> globals \<Rightarrow> (FunctionAST option \<times> globals) option" where
  "ParseDefinition f n g = do {
     (_, g1) \<leftarrow> getNextToken f n g;
     (Proto, g2) \<leftarrow> ParsePrototype f n g1;
     case Proto of
       None \<Rightarrow> Some (None, g2)
     | Some Proto' \<Rightarrow> do {
         (E, g3) \<leftarrow> ParseExpression f n g2;
         case E of
           Some E' \<Rightarrow> Some (Some (FunctionAST Proto' E'), g3)
         | None \<Rightarrow> Some (None, g3)
       }
   }"

definition ParseExtern ::
  "source_file \<Rightarrow> nat \<Rightarrow> globals \<Rightarrow> (PrototypeAST option \<times> globals) option" where
  "ParseExtern f n g = do { (_, g1) \<leftarrow> getNextToken f n g; ParsePrototype f n g1 }"

definition ParseTopLevelExpr ::
  "source_file \<Rightarrow> nat \<Rightarrow> globals \<Rightarrow> (FunctionAST option \<times> globals) option" where
  "ParseTopLevelExpr f n g = do {
     (E, g1) \<leftarrow> ParseExpression f n g;
     case E of
       Some E' \<Rightarrow>
         (let Proto = PrototypeAST (case f of main_cpp \<Rightarrow> [] | jit_cpp \<Rightarrow> ''__anon_expr'') []
          in Some (Some (FunctionAST Proto E'), g1))
     | None \<Rightarrow> Some (None, g1)
   }"

subsection \<open>Driver of \<^verbatim>\<open>main.cpp\<close>\<close>

definition HandleDefinition :: "nat \<Rightarrow> globals \<Rightarrow> globals option" where
  "HandleDefinition n g = do {
     (r, g1) \<leftarrow> ParseDefinition main_cpp n g;
     if r \<noteq> None then Some (g1\<lparr>stderr := stderr g1 @ [''Parsed a function definition.\<newline>'']\<rparr>)
     else do { (_, g2) \<leftarrow> getNextToken main_cpp n g1; Some g2 }
   }"

definition HandleExtern :: "nat \<Rightarrow> globals \<Rightarrow> globals option" where
  "HandleExtern n g = do {
     (r, g1) \<leftarrow> ParseExtern main_cpp n g;
     if r \<noteq> None then Some (g1\<lparr>stderr := stderr g1 @ [''Parsed an extern\<newline>'']\<rparr>)
     else do { (_, g2) \<leftarrow> getNextToken main_cpp n g1; Some g2 }
   }"

definition HandleTopLevelExpression :: "nat \<Rightarrow> globals \<Rightarrow> globals option" where
  "HandleTopLevelExpression n g = do {
     (r, g1) \<leftarrow> ParseTopLevelExpr main_cpp n g;
     if r \<noteq> None then Some (g1\<lparr>stderr := stderr g1 @ [''Parsed a top-level expr\<newline>'']\<rparr>)
     else do { (_, g2) \<leftarrow> getNextToken main_cpp n g1; Some g2 }
   }"

fun MainLoop :: "nat \<Rightarrow> globals \<Rightarrow> globals option" where
  "MainLoop 0 g = None"
| "MainLoop (Suc n) g =
    (if CurTok g = tok_eof then Some g
     else if CurTok g = ord CHR '';'' then do { (_, g1) \<leftarrow> getNextToken main_cpp n g; MainLoop n g1 }
     else if CurTok g = tok_def then do { g1 \<leftarrow> HandleDefinition n g; MainLoop n g1 }
     else if CurTok g = tok_extern then do { g1 \<leftarrow> HandleExtern n g; MainLoop n g1 }
     else do { g1 \<leftarrow> HandleTopLevelExpression n g; MainLoop n g1 })"

text \<open>The four assignments at the start of \<^verbatim>\<open>main\<close>.\<close>

definition install_binops :: "globals \<Rightarrow> globals" where
  "install_binops g =
    g\<lparr>BinopPrecedence :=
        (BinopPrecedence g)(CHR ''<'' \<mapsto> 10, CHR ''+'' \<mapsto> 20, CHR ''-'' \<mapsto> 20, CHR ''*'' \<mapsto> 40)\<rparr>"

definition main :: "nat \<Rightarrow> string \<Rightarrow> globals option" where
  "main n input = do {
     (_, g1) \<leftarrow> getNextToken main_cpp n (install_binops (initial input));
     MainLoop n g1
   }"

text \<open>
  The state in which the parser is entered on an input: the operators installed and the first
  token read, as \<^verbatim>\<open>main\<close> of either file does before its loop.
\<close>

definition primed :: "source_file \<Rightarrow> nat \<Rightarrow> string \<Rightarrow> globals option" where
  "primed f n input = map_option snd (getNextToken f n (install_binops (initial input)))"

subsection \<open>Running the front end on an input\<close>

text \<open>
  \<open>on_input f n input P\<close> runs the parse function \<open>P\<close> in the state \<open>primed f n input\<close>, and
  \<open>outcome\<close> keeps of a result what can be observed: the value returned, the current token
  afterwards and what \<^verbatim>\<open>stderr\<close> received. \<open>tokens f n k g\<close> are the next \<open>k\<close> tokens that
  \<^verbatim>\<open>gettok\<close> returns from the state \<open>g\<close>, each with the identifier text and the numeric value
  that go with it.
\<close>

definition on_input ::
  "source_file \<Rightarrow> nat \<Rightarrow> string \<Rightarrow> (source_file \<Rightarrow> nat \<Rightarrow> globals \<Rightarrow> ('a \<times> globals) option)
    \<Rightarrow> ('a \<times> globals) option" where
  "on_input f n input P = do { g \<leftarrow> primed f n input; P f n g }"

definition outcome :: "('a \<times> globals) option \<Rightarrow> ('a \<times> int \<times> string list) option" where
  "outcome m = map_option (\<lambda>(r, g). (r, CurTok g, stderr g)) m"


text \<open>The identifiers of the language, \<^verbatim>\<open>[A-Za-z][A-Za-z0-9]*\<close>.\<close>

definition is_identifier :: "string \<Rightarrow> bool" where
  "is_identifier s \<longleftrightarrow>
    (case s of [] \<Rightarrow> False | c # cs \<Rightarrow> isalpha (ord c) \<and> list_all (\<lambda>c. isalnum (ord c)) cs)"

text \<open>
  \<open>fuel_le a b\<close>: the run \<open>b\<close> agrees with the run \<open>a\<close> wherever \<open>a\<close> had fuel enough to return.
\<close>

definition fuel_le :: "'a option \<Rightarrow> 'a option \<Rightarrow> bool" where
  "fuel_le a b \<longleftrightarrow> a = None \<or> a = b"

text \<open>
  \<open>never_eof g\<close>: the byte \<^verbatim>\<open>0xFF\<close>, the only one that \<open>ord\<close> takes to \<^verbatim>\<open>EOF\<close>, occurs neither
  in the input still to be read nor in the line buffer, and neither the pending character nor
  the current token is \<^verbatim>\<open>EOF\<close>. \<open>keeps m\<close>: the state in which the run \<open>m\<close> returns, if it does,
  is such a state.
\<close>

definition never_eof :: "globals \<Rightarrow> bool" where
  "never_eof g \<longleftrightarrow>
    CHR 0xFF \<notin> set (cin g) \<and> CHR 0xFF \<notin> set (Buf g) \<and> LastChar g \<noteq> EOF \<and> CurTok g \<noteq> tok_eof"

definition keeps :: "('a \<times> globals) option \<Rightarrow> bool" where
  "keeps m \<longleftrightarrow> (\<forall>x. m = Some x \<longrightarrow> never_eof (snd x))"

text \<open>
  \<open>no_close_operator g\<close>: the table of operators gives \<^verbatim>\<open>)\<close> no positive precedence, so that
  \<^verbatim>\<open>GetTokPrecedence\<close> answers \<^verbatim>\<open>-1\<close> at a closing parenthesis. \<open>keeps_that P m\<close>: the state in
  which the run \<open>m\<close> returns, if it does, satisfies \<open>P\<close>.
\<close>

definition no_close_operator :: "globals \<Rightarrow> bool" where
  "no_close_operator g \<longleftrightarrow>
    (case BinopPrecedence g CHR '')'' of None \<Rightarrow> True | Some p \<Rightarrow> p \<le> 0)"

definition keeps_that :: "(globals \<Rightarrow> bool) \<Rightarrow> ('a \<times> globals) option \<Rightarrow> bool" where
  "keeps_that P m \<longleftrightarrow> (\<forall>x. m = Some x \<longrightarrow> P (snd x))"

section \<open>More fuel never changes a result\<close>

lemma fuel_le_refl: "fuel_le a a"
  by (simp add: fuel_le_def)

lemma fuel_le_None: "fuel_le None a"
  by (simp add: fuel_le_def)

lemma fuel_le_trans: "fuel_le a b \<Longrightarrow> fuel_le b c \<Longrightarrow> fuel_le a c"
  by (auto simp: fuel_le_def)

lemma fuel_le_Some: "fuel_le a b \<Longrightarrow> a = Some r \<Longrightarrow> b = Some r"
  by (auto simp: fuel_le_def)

lemma fuel_le_bind:
  "fuel_le m m' \<Longrightarrow> (\<And>x. fuel_le (k x) (k' x)) \<Longrightarrow> fuel_le (m \<bind> k) (m' \<bind> k')"
  by (cases m; cases m') (auto simp: fuel_le_def)

lemma fuel_le_if:
  "(c \<Longrightarrow> fuel_le a a') \<Longrightarrow> (\<not> c \<Longrightarrow> fuel_le b b')
    \<Longrightarrow> fuel_le (if c then a else b) (if c then a' else b')"
  by simp

lemma fuel_le_prod:
  "(\<And>a b. fuel_le (F a b) (G a b)) \<Longrightarrow> fuel_le (case_prod F x) (case_prod G x)"
  by (cases x) simp

lemma fuel_le_option:
  "fuel_le a a' \<Longrightarrow> (\<And>y. fuel_le (F y) (G y))
    \<Longrightarrow> fuel_le (case_option a F x) (case_option a' G x)"
  by (cases x) simp_all

lemma fuel_le_Let: "(\<And>x. fuel_le (F x) (G x)) \<Longrightarrow> fuel_le (Let a F) (Let a G)"
  by simp

lemma fuel_le_map_option: "fuel_le a b \<Longrightarrow> fuel_le (map_option h a) (map_option h b)"
  by (auto simp: fuel_le_def)

lemmas fuel_le_intros =
  fuel_le_refl fuel_le_None fuel_le_bind fuel_le_if fuel_le_prod fuel_le_option fuel_le_Let
  fuel_le_map_option

lemma fuel_le_steps:
  assumes step: "\<And>n. fuel_le (F n) (F (Suc n))"
  shows "n \<le> m \<Longrightarrow> fuel_le (F n) (F m)"
proof (induction m)
  case 0
  then show ?case by (simp add: fuel_le_refl)
next
  case (Suc m)
  show ?case
  proof (cases "n = Suc m")
    case True
    then show ?thesis by (simp add: fuel_le_refl)
  next
    case False
    with Suc.prems have "n \<le> m" by simp
    then have "fuel_le (F n) (F m)" by (rule Suc.IH)
    then show ?thesis using step[of m] by (rule fuel_le_trans)
  qed
qed

lemma enough_fuel:
  assumes "\<And>n. fuel_le (F n) (F (Suc n))" and "F N = Some r" and "N \<le> n"
  shows "F n = Some r"
  using fuel_le_steps[of F N n, OF assms(1) assms(3)] assms(2) by (rule fuel_le_Some)

lemma gettok_space_mono: "fuel_le (gettok_space n g) (gettok_space (Suc n) g)"
proof (induction n arbitrary: g)
  case 0
  show ?case by (simp add: fuel_le_None)
next
  case (Suc n)
  show ?case
    by (subst gettok_space.simps(2)[where n=n], subst gettok_space.simps(2)[where n="Suc n"])
      (intro fuel_le_intros Suc.IH)
qed

lemma gettok_identifier_mono: "fuel_le (gettok_identifier n g) (gettok_identifier (Suc n) g)"
proof (induction n arbitrary: g)
  case 0
  show ?case by (simp add: fuel_le_None)
next
  case (Suc n)
  show ?case
    by (subst gettok_identifier.simps(2)[where n=n],
        subst gettok_identifier.simps(2)[where n="Suc n"])
      (intro fuel_le_intros Suc.IH)
qed

lemma gettok_number_mono: "fuel_le (gettok_number n s g) (gettok_number (Suc n) s g)"
proof (induction n arbitrary: g s)
  case 0
  show ?case by (simp add: fuel_le_None)
next
  case (Suc n)
  show ?case
    by (subst gettok_number.simps(2)[where n=n], subst gettok_number.simps(2)[where n="Suc n"])
      (intro fuel_le_intros Suc.IH)
qed

lemma gettok_comment_mono: "fuel_le (gettok_comment n g) (gettok_comment (Suc n) g)"
proof (induction n arbitrary: g)
  case 0
  show ?case by (simp add: fuel_le_None)
next
  case (Suc n)
  show ?case
    by (subst gettok_comment.simps(2)[where n=n], subst gettok_comment.simps(2)[where n="Suc n"])
      (intro fuel_le_intros Suc.IH)
qed

lemma gettok_mono: "fuel_le (gettok f n g) (gettok f (Suc n) g)"
proof (induction n arbitrary: g)
  case 0
  show ?case by (simp add: fuel_le_None)
next
  case (Suc n)
  show ?case
    by (subst gettok.simps(2)[where n=n], subst gettok.simps(2)[where n="Suc n"])
      (intro fuel_le_intros Suc.IH gettok_space_mono gettok_identifier_mono
        gettok_number_mono gettok_comment_mono)
qed

lemma getNextToken_mono: "fuel_le (getNextToken f n g) (getNextToken f (Suc n) g)"
  unfolding getNextToken_def by (intro fuel_le_intros gettok_mono)

lemma ParseNumberExpr_mono: "fuel_le (ParseNumberExpr f n g) (ParseNumberExpr f (Suc n) g)"
  unfolding ParseNumberExpr_def by (intro fuel_le_intros getNextToken_mono)

lemma Parse_mono:
  "(\<forall>g. fuel_le (ParseParenExpr f n g) (ParseParenExpr f (Suc n) g)) \<and>
   (\<forall>g. fuel_le (ParseIdentifierExpr f n g) (ParseIdentifierExpr f (Suc n) g)) \<and>
   (\<forall>g A. fuel_le (ParseIdentifierExpr_args f n A g) (ParseIdentifierExpr_args f (Suc n) A g)) \<and>
   (\<forall>g. fuel_le (ParsePrimary f n g) (ParsePrimary f (Suc n) g)) \<and>
   (\<forall>g. fuel_le (ParseExpression f n g) (ParseExpression f (Suc n) g)) \<and>
   (\<forall>g p L. fuel_le (ParseBinOpRHS f n p L g) (ParseBinOpRHS f (Suc n) p L g))"
proof (induction n)
  case 0
  show ?case by (simp add: fuel_le_None)
next
  case (Suc n)
  note IH = Suc.IH[THEN conjunct1, rule_format]
    Suc.IH[THEN conjunct2, THEN conjunct1, rule_format]
    Suc.IH[THEN conjunct2, THEN conjunct2, THEN conjunct1, rule_format]
    Suc.IH[THEN conjunct2, THEN conjunct2, THEN conjunct2, THEN conjunct1, rule_format]
    Suc.IH[THEN conjunct2, THEN conjunct2, THEN conjunct2, THEN conjunct2, THEN conjunct1,
      rule_format]
    Suc.IH[THEN conjunct2, THEN conjunct2, THEN conjunct2, THEN conjunct2, THEN conjunct2,
      rule_format]
  note rules = fuel_le_intros IH getNextToken_mono ParseNumberExpr_mono
  have 1: "fuel_le (ParseParenExpr f (Suc n) g) (ParseParenExpr f (Suc (Suc n)) g)" for g
    by (subst ParseParenExpr.simps(2)[where n=n],
        subst ParseParenExpr.simps(2)[where n="Suc n"]) (intro rules)
  have 2: "fuel_le (ParseIdentifierExpr f (Suc n) g) (ParseIdentifierExpr f (Suc (Suc n)) g)"
    for g
    by (subst ParseIdentifierExpr.simps(2)[where n=n],
        subst ParseIdentifierExpr.simps(2)[where n="Suc n"]) (intro rules)
  have 3: "fuel_le (ParseIdentifierExpr_args f (Suc n) A g)
             (ParseIdentifierExpr_args f (Suc (Suc n)) A g)" for g A
    by (subst ParseIdentifierExpr_args.simps(2)[where n=n],
        subst ParseIdentifierExpr_args.simps(2)[where n="Suc n"]) (intro rules)
  have 4: "fuel_le (ParsePrimary f (Suc n) g) (ParsePrimary f (Suc (Suc n)) g)" for g
    by (subst ParsePrimary.simps(2)[where n=n],
        subst ParsePrimary.simps(2)[where n="Suc n"]) (intro rules)
  have 5: "fuel_le (ParseExpression f (Suc n) g) (ParseExpression f (Suc (Suc n)) g)" for g
    by (subst ParseExpression.simps(2)[where n=n],
        subst ParseExpression.simps(2)[where n="Suc n"]) (intro rules)
  have 6: "fuel_le (ParseBinOpRHS f (Suc n) p L g) (ParseBinOpRHS f (Suc (Suc n)) p L g)"
    for g p L
    by (subst ParseBinOpRHS.simps(2)[where n=n],
        subst ParseBinOpRHS.simps(2)[where n="Suc n"]) (intro rules)
  show ?case using 1 2 3 4 5 6 by blast
qed

lemma ParsePrimary_mono: "fuel_le (ParsePrimary f n g) (ParsePrimary f (Suc n) g)"
  using Parse_mono[of f n] by blast

lemma ParseExpression_mono: "fuel_le (ParseExpression f n g) (ParseExpression f (Suc n) g)"
  using Parse_mono[of f n] by blast

lemma ParsePrototype_args_mono:
  "fuel_le (ParsePrototype_args f n A g) (ParsePrototype_args f (Suc n) A g)"
proof (induction n arbitrary: g A)
  case 0
  show ?case by (simp add: fuel_le_None)
next
  case (Suc n)
  show ?case
    by (subst ParsePrototype_args.simps(2)[where n=n],
        subst ParsePrototype_args.simps(2)[where n="Suc n"])
      (intro fuel_le_intros Suc.IH getNextToken_mono)
qed

lemma ParsePrototype_mono: "fuel_le (ParsePrototype f n g) (ParsePrototype f (Suc n) g)"
  unfolding ParsePrototype_def
  by (intro fuel_le_intros getNextToken_mono ParsePrototype_args_mono)

lemma ParseDefinition_mono: "fuel_le (ParseDefinition f n g) (ParseDefinition f (Suc n) g)"
  unfolding ParseDefinition_def
  by (intro fuel_le_intros getNextToken_mono ParsePrototype_mono ParseExpression_mono)

lemma ParseExtern_mono: "fuel_le (ParseExtern f n g) (ParseExtern f (Suc n) g)"
  unfolding ParseExtern_def by (intro fuel_le_intros getNextToken_mono ParsePrototype_mono)

lemma ParseTopLevelExpr_mono:
  "fuel_le (ParseTopLevelExpr f n g) (ParseTopLevelExpr f (Suc n) g)"
  unfolding ParseTopLevelExpr_def by (intro fuel_le_intros ParseExpression_mono)

lemma primed_mono: "fuel_le (primed f n input) (primed f (Suc n) input)"
  unfolding primed_def by (intro fuel_le_intros getNextToken_mono)

lemma on_input_mono:
  assumes "\<And>n g. fuel_le (P f n g) (P f (Suc n) g)"
  shows "fuel_le (outcome (on_input f n input P)) (outcome (on_input f (Suc n) input P))"
  unfolding on_input_def outcome_def by (intro fuel_le_intros primed_mono assms)


lemma bind_eq_Some_iff: "(m \<bind> k) = Some r \<longleftrightarrow> (\<exists>x. m = Some x \<and> k x = Some r)"
  by (cases m) auto

section \<open>Evaluation\<close>

text \<open>The definitions that a run on a concrete input unfolds.\<close>

lemmas ev = ord_def chr_def char_of_def isspace_def isalpha_def isdigit_def isalnum_def
  isascii_def getline_def getBufChar_def initial_def strtod_def decimal_def Let_def
  getNextToken_def GetTokPrecedence_def ParseNumberExpr_def LogError_def LogErrorP_def
  install_binops_def primed_def on_input_def outcome_def

section \<open>Operator precedence\<close>

text \<open>
  C9. \<^verbatim>\<open>GetTokPrecedence\<close> never returns 0: its result is \<open>-1\<close> when the current token is
  not an ASCII character, has no entry in \<^verbatim>\<open>BinopPrecedence\<close> or has an entry that is not
  positive, and the positive entry otherwise. A lookup may add an entry with the value 0 to the
  table; in any state that holds the table left by a lookup, the precedence of every token
  is what it is with the table as it was before the lookup.
\<close>

theorem GetTokPrecedence_never_zero:
  "fst (GetTokPrecedence g) \<noteq> 0 \<and>
   fst (GetTokPrecedence g) =
     (if isascii (CurTok g)
      then (case BinopPrecedence g (chr (CurTok g)) of
              None \<Rightarrow> - 1 | Some p \<Rightarrow> if p \<le> 0 then - 1 else p)
      else - 1) \<and>
   (BinopPrecedence g' = BinopPrecedence (snd (GetTokPrecedence g)) \<longrightarrow>
      fst (GetTokPrecedence g') =
      fst (GetTokPrecedence (g'\<lparr>BinopPrecedence := BinopPrecedence g\<rparr>)))"
  by (auto simp: GetTokPrecedence_def Let_def split: option.splits if_splits)

theorem GetTokPrecedence_never_zero_witness:
  "fst (GetTokPrecedence (install_binops (initial [])\<lparr>CurTok := ord CHR ''+''\<rparr>)) = 20 \<and>
   fst (GetTokPrecedence (install_binops (initial [])\<lparr>CurTok := ord CHR '';''\<rparr>)) = - 1 \<and>
   fst (GetTokPrecedence
     ((snd (GetTokPrecedence (install_binops (initial [])\<lparr>CurTok := ord CHR '';''\<rparr>)))
        \<lparr>CurTok := ord CHR '';''\<rparr>)) = - 1"
  using
    GetTokPrecedence_never_zero[of "install_binops (initial [])\<lparr>CurTok := ord CHR ''+''\<rparr>"
      "initial []"]
    GetTokPrecedence_never_zero[of "install_binops (initial [])\<lparr>CurTok := ord CHR '';''\<rparr>"
      "(snd (GetTokPrecedence (install_binops (initial [])\<lparr>CurTok := ord CHR '';''\<rparr>)))
         \<lparr>CurTok := ord CHR '';''\<rparr>"]
  by (simp add: ev)

text \<open>The three expressions that the specification gives as examples group as it says.\<close>

lemma example_add_mul_20:
  "outcome (on_input f 20 ''1+2*3;'' ParseExpression) =
     Some (Some (BinaryExprAST CHR ''+'' (NumberExprAST 1)
             (BinaryExprAST CHR ''*'' (NumberExprAST 2) (NumberExprAST 3))),
           ord CHR '';'', [''ready > ''])"
  by (cases f) (simp_all add: ev eval_nat_numeral)

lemma example_sub_sub_20:
  "outcome (on_input f 20 ''1-2-3;'' ParseExpression) =
     Some (Some (BinaryExprAST CHR ''-''
             (BinaryExprAST CHR ''-'' (NumberExprAST 1) (NumberExprAST 2)) (NumberExprAST 3)),
           ord CHR '';'', [''ready > ''])"
  by (cases f) (simp_all add: ev eval_nat_numeral)

lemma example_less_add_20:
  "outcome (on_input f 20 ''1<2+3;'' ParseExpression) =
     Some (Some (BinaryExprAST CHR ''<'' (NumberExprAST 1)
             (BinaryExprAST CHR ''+'' (NumberExprAST 2) (NumberExprAST 3))),
           ord CHR '';'', [''ready > ''])"
  by (cases f) (simp_all add: ev eval_nat_numeral)

lemma examples_group_as_specified:
  assumes "20 \<le> n"
  shows "outcome (on_input f n ''1+2*3;'' ParseExpression) =
     Some (Some (BinaryExprAST CHR ''+'' (NumberExprAST 1)
             (BinaryExprAST CHR ''*'' (NumberExprAST 2) (NumberExprAST 3))),
           ord CHR '';'', [''ready > ''])"
    and "outcome (on_input f n ''1-2-3;'' ParseExpression) =
     Some (Some (BinaryExprAST CHR ''-''
             (BinaryExprAST CHR ''-'' (NumberExprAST 1) (NumberExprAST 2)) (NumberExprAST 3)),
           ord CHR '';'', [''ready > ''])"
    and "outcome (on_input f n ''1<2+3;'' ParseExpression) =
     Some (Some (BinaryExprAST CHR ''<'' (NumberExprAST 1)
             (BinaryExprAST CHR ''+'' (NumberExprAST 2) (NumberExprAST 3))),
           ord CHR '';'', [''ready > ''])"
proof -
  show "outcome (on_input f n ''1+2*3;'' ParseExpression) =
     Some (Some (BinaryExprAST CHR ''+'' (NumberExprAST 1)
             (BinaryExprAST CHR ''*'' (NumberExprAST 2) (NumberExprAST 3))),
           ord CHR '';'', [''ready > ''])"
    by (rule enough_fuel[where F="\<lambda>n. outcome (on_input f n ''1+2*3;'' ParseExpression)",
          OF _ example_add_mul_20 assms])
       (rule on_input_mono, rule ParseExpression_mono)
  show "outcome (on_input f n ''1-2-3;'' ParseExpression) =
     Some (Some (BinaryExprAST CHR ''-''
             (BinaryExprAST CHR ''-'' (NumberExprAST 1) (NumberExprAST 2)) (NumberExprAST 3)),
           ord CHR '';'', [''ready > ''])"
    by (rule enough_fuel[where F="\<lambda>n. outcome (on_input f n ''1-2-3;'' ParseExpression)",
          OF _ example_sub_sub_20 assms])
       (rule on_input_mono, rule ParseExpression_mono)
  show "outcome (on_input f n ''1<2+3;'' ParseExpression) =
     Some (Some (BinaryExprAST CHR ''<'' (NumberExprAST 1)
             (BinaryExprAST CHR ''+'' (NumberExprAST 2) (NumberExprAST 3))),
           ord CHR '';'', [''ready > ''])"
    by (rule enough_fuel[where F="\<lambda>n. outcome (on_input f n ''1<2+3;'' ParseExpression)",
          OF _ example_less_add_20 assms])
       (rule on_input_mono, rule ParseExpression_mono)
qed

text \<open>
  When \<^verbatim>\<open>ParseBinOpRHS\<close> returns an expression, the precedence of the current token is below
  its bound: the call has taken every operator whose precedence is the bound or more. The call
  for a right operand, whose bound is the precedence of the operator on the left, therefore
  takes the operators of that same precedence too.
\<close>

lemma GetTokPrecedence_again:
  "fst (GetTokPrecedence (snd (GetTokPrecedence g))) = fst (GetTokPrecedence g)"
  by (auto simp: GetTokPrecedence_def Let_def split: option.splits if_splits)

lemma ParseBinOpRHS_stops_below_bound:
  "ParseBinOpRHS f n ExprPrec LHS g = Some (Some E, g') \<Longrightarrow> fst (GetTokPrecedence g') < ExprPrec"
proof (induction n arbitrary: ExprPrec LHS g)
  case 0
  then show ?case by simp
next
  case (Suc n)
  let ?T = "fst (GetTokPrecedence g)" and ?g1 = "snd (GetTokPrecedence g)"
  show ?case
  proof (cases "?T < ExprPrec")
    case True
    with Suc.prems have "g' = ?g1"
      by (simp add: case_prod_unfold Let_def del: ParsePrimary.simps)
    with True show ?thesis by (simp add: GetTokPrecedence_again)
  next
    case False
    let ?B = "BinaryExprAST (chr (CurTok ?g1)) LHS"
    have unf: "ParseBinOpRHS f (Suc n) ExprPrec LHS g =
      getNextToken f n ?g1 \<bind> (\<lambda>x. ParsePrimary f n (snd x) \<bind> (\<lambda>y.
        case fst y of None \<Rightarrow> Some (None, snd y)
        | Some R \<Rightarrow>
            if ?T < fst (GetTokPrecedence (snd y))
            then ParseBinOpRHS f n ?T R (snd (GetTokPrecedence (snd y))) \<bind> (\<lambda>z.
                   case fst z of None \<Rightarrow> Some (None, snd z)
                   | Some R2 \<Rightarrow> ParseBinOpRHS f n ExprPrec (?B R2) (snd z))
            else ParseBinOpRHS f n ExprPrec (?B R) (snd (GetTokPrecedence (snd y)))))"
      using False
      by (subst ParseBinOpRHS.simps(2))
        (simp add: case_prod_unfold Let_def del: ParsePrimary.simps ParseBinOpRHS.simps
          cong: option.case_cong if_cong)
    from Suc.prems obtain x y where
      y: "(case fst y of None \<Rightarrow> Some (None, snd y)
        | Some R \<Rightarrow>
            if ?T < fst (GetTokPrecedence (snd y))
            then ParseBinOpRHS f n ?T R (snd (GetTokPrecedence (snd y))) \<bind> (\<lambda>z.
                   case fst z of None \<Rightarrow> Some (None, snd z)
                   | Some R2 \<Rightarrow> ParseBinOpRHS f n ExprPrec (?B R2) (snd z))
            else ParseBinOpRHS f n ExprPrec (?B R) (snd (GetTokPrecedence (snd y)))) =
        Some (Some E, g')"
      unfolding unf bind_eq_Some_iff by blast
    then obtain R where R: "fst y = Some R" by (cases "fst y") auto
    show ?thesis
    proof (cases "?T < fst (GetTokPrecedence (snd y))")
      case True
      with y R obtain z where
        z: "(case fst z of None \<Rightarrow> Some (None, snd z)
             | Some R2 \<Rightarrow> ParseBinOpRHS f n ExprPrec (?B R2) (snd z)) = Some (Some E, g')"
        by (auto simp: bind_eq_Some_iff simp del: ParseBinOpRHS.simps)
      then obtain R2 where "fst z = Some R2" by (cases "fst z") auto
      with z have "ParseBinOpRHS f n ExprPrec (?B R2) (snd z) = Some (Some E, g')" by simp
      then show ?thesis by (rule Suc.IH)
    next
      case False
      with y R have
        "ParseBinOpRHS f n ExprPrec (?B R) (snd (GetTokPrecedence (snd y))) = Some (Some E, g')"
        by simp
      then show ?thesis by (rule Suc.IH)
    qed
  qed
qed

lemma sub_mul_sub_20:
  "outcome (on_input f 20 ''1-2*3-4;'' ParseExpression) =
     Some (Some (BinaryExprAST CHR ''-'' (NumberExprAST 1)
             (BinaryExprAST CHR ''-''
               (BinaryExprAST CHR ''*'' (NumberExprAST 2) (NumberExprAST 3))
               (NumberExprAST 4))),
           ord CHR '';'', [''ready > ''])"
  by (cases f) (simp_all add: ev eval_nat_numeral)

text \<open>
  C1. Operators of equal precedence do not always associate to the left. The recursive call
  of \<^verbatim>\<open>ParseBinOpRHS\<close> for a right operand is made with \<^verbatim>\<open>TokPrec\<close> as its bound, so it also
  takes the operators that follow with the precedence of the operator on the left: in either
  build \<^verbatim>\<open>1-2*3-4\<close> parses as \<^verbatim>\<open>1-((2*3)-4)\<close>, where grouping by precedence and left
  associativity gives \<^verbatim>\<open>(1-(2*3))-4\<close>.
\<close>

theorem equal_precedence_nests_right:
  assumes "20 \<le> n"
  shows "outcome (on_input f n ''1-2*3-4;'' ParseExpression) =
     Some (Some (BinaryExprAST CHR ''-'' (NumberExprAST 1)
             (BinaryExprAST CHR ''-''
               (BinaryExprAST CHR ''*'' (NumberExprAST 2) (NumberExprAST 3))
               (NumberExprAST 4))),
           ord CHR '';'', [''ready > ''])"
  by (rule enough_fuel[where F="\<lambda>n. outcome (on_input f n ''1-2*3-4;'' ParseExpression)",
        OF _ sub_mul_sub_20 assms])
     (rule on_input_mono, rule ParseExpression_mono)

theorem equal_precedence_nests_right_witness:
  "outcome (on_input main_cpp 25 ''1-2*3-4;'' ParseExpression) =
     Some (Some (BinaryExprAST CHR ''-'' (NumberExprAST 1)
             (BinaryExprAST CHR ''-''
               (BinaryExprAST CHR ''*'' (NumberExprAST 2) (NumberExprAST 3))
               (NumberExprAST 4))),
           ord CHR '';'', [''ready > ''])"
  using equal_precedence_nests_right[of 25 main_cpp] by simp

section \<open>Primary expressions\<close>

text \<open>
  C7. When the current token is neither an identifier, a number nor \<^verbatim>\<open>(\<close>, \<^verbatim>\<open>ParsePrimary\<close>
  returns no result and reports the message \<^verbatim>\<open>unknown token\<close>.
\<close>

theorem ParsePrimary_unknown_token:
  "CurTok g \<noteq> tok_identifier \<Longrightarrow> CurTok g \<noteq> tok_number \<Longrightarrow> CurTok g \<noteq> ord CHR ''(''
    \<Longrightarrow> ParsePrimary f (Suc n) g =
        Some (None, g\<lparr>stderr := stderr g @ [''LogError: unknown token\<newline>'']\<rparr>)"
  by (simp add: LogError_def)

theorem ParsePrimary_unknown_token_witness:
  "ParsePrimary jit_cpp (Suc 0) ((initial [])\<lparr>CurTok := ord CHR '')''\<rparr>) =
     Some (None,
       (initial [])\<lparr>CurTok := ord CHR '')'', stderr := [''LogError: unknown token\<newline>'']\<rparr>)"
  using ParsePrimary_unknown_token[of "(initial [])\<lparr>CurTok := ord CHR '')''\<rparr>" jit_cpp 0]
  by (simp add: ev)

text \<open>
  On the input \<^verbatim>\<open>)\<close> the message is \<^verbatim>\<open>unknown token\<close>, not
  \<^verbatim>\<open>unknown token when expecting an expression\<close>.
\<close>

theorem ParsePrimary_message_counterexample:
  "outcome (on_input main_cpp 3 '')'' ParsePrimary) =
     Some (None, ord CHR '')'', [''ready > '', ''LogError: unknown token\<newline>'']) \<and>
   outcome (on_input main_cpp 3 '')'' ParsePrimary) \<noteq>
     Some (None, ord CHR '')'',
       [''ready > '', ''LogError: unknown token when expecting an expression\<newline>''])"
  by (simp add: ev eval_nat_numeral)

section \<open>Calls\<close>

lemma ParseIdentifierExpr_mono:
  "fuel_le (ParseIdentifierExpr f n g) (ParseIdentifierExpr f (Suc n) g)"
  using Parse_mono[of f n] by blast

text \<open>
  A call without arguments parses in both builds; a stray comma after the last argument is an
  error of the build with the JIT, reported for the \<^verbatim>\<open>)\<close> that follows the comma.
\<close>

lemma call_examples_20:
  "outcome (on_input f 20 ''f();'' ParseIdentifierExpr) =
     Some (Some (CallExprAST ''f'' []), ord CHR '';'', [''ready > ''])"
  "outcome (on_input jit_cpp 20 ''f(1,2,);'' ParseIdentifierExpr) =
     Some (None, ord CHR '')'', [''ready > '', ''LogError: unknown token\<newline>''])"
  by (cases f; simp add: ev eval_nat_numeral)+

lemma call_two_arguments_20:
  "outcome (on_input main_cpp 20 ''f(1,2);'' ParseIdentifierExpr) =
     Some (None, ord CHR '','',
       [''ready > '', ''LogError: expected ')' or ',' in argument list\<newline>''])"
  "outcome (on_input jit_cpp 20 ''f(1,2);'' ParseIdentifierExpr) =
     Some (Some (CallExprAST ''f'' [NumberExprAST 1, NumberExprAST 2]),
       ord CHR '';'', [''ready > ''])"
  by (simp_all add: ev eval_nat_numeral)

text \<open>
  C2. In \<^verbatim>\<open>main.cpp\<close> the argument loop of \<^verbatim>\<open>ParseIdentifierExpr\<close> compares the token after
  an argument with \<^verbatim>\<open>'.'\<close>, not with \<^verbatim>\<open>','\<close>: the call \<^verbatim>\<open>f(1,2)\<close> is rejected there at its
  comma with the message \<^verbatim>\<open>expected ')' or ',' in argument list\<close>. The other build, which
  compares with \<^verbatim>\<open>','\<close>, returns the call with the arguments 1 and 2.
\<close>

theorem main_cpp_rejects_comma:
  assumes "20 \<le> n"
  shows "outcome (on_input main_cpp n ''f(1,2);'' ParseIdentifierExpr) =
     Some (None, ord CHR '','',
       [''ready > '', ''LogError: expected ')' or ',' in argument list\<newline>'']) \<and>
   outcome (on_input jit_cpp n ''f(1,2);'' ParseIdentifierExpr) =
     Some (Some (CallExprAST ''f'' [NumberExprAST 1, NumberExprAST 2]),
       ord CHR '';'', [''ready > ''])"
proof
  show "outcome (on_input main_cpp n ''f(1,2);'' ParseIdentifierExpr) =
     Some (None, ord CHR '','',
       [''ready > '', ''LogError: expected ')' or ',' in argument list\<newline>''])"
    by (rule enough_fuel[where F="\<lambda>n. outcome (on_input main_cpp n ''f(1,2);'' ParseIdentifierExpr)",
          OF _ call_two_arguments_20(1) assms])
       (rule on_input_mono, rule ParseIdentifierExpr_mono)
  show "outcome (on_input jit_cpp n ''f(1,2);'' ParseIdentifierExpr) =
     Some (Some (CallExprAST ''f'' [NumberExprAST 1, NumberExprAST 2]),
       ord CHR '';'', [''ready > ''])"
    by (rule enough_fuel[where F="\<lambda>n. outcome (on_input jit_cpp n ''f(1,2);'' ParseIdentifierExpr)",
          OF _ call_two_arguments_20(2) assms])
       (rule on_input_mono, rule ParseIdentifierExpr_mono)
qed

theorem main_cpp_rejects_comma_witness:
  "outcome (on_input main_cpp 21 ''f(1,2);'' ParseIdentifierExpr) =
     Some (None, ord CHR '','',
       [''ready > '', ''LogError: expected ')' or ',' in argument list\<newline>'']) \<and>
   outcome (on_input jit_cpp 21 ''f(1,2);'' ParseIdentifierExpr) =
     Some (Some (CallExprAST ''f'' [NumberExprAST 1, NumberExprAST 2]),
       ord CHR '';'', [''ready > ''])"
  using main_cpp_rejects_comma[of 21] by simp

section \<open>Parentheses\<close>

lemma ParseParenExpr_Some_iff:
  "ParseParenExpr f (Suc n) g = Some (Some V, g') \<longleftrightarrow>
     (\<exists>t g1 g2 t'. getNextToken f n g = Some (t, g1) \<and>
        ParseExpression f n g1 = Some (Some V, g2) \<and> CurTok g2 = ord CHR '')'' \<and>
        getNextToken f n g2 = Some (t', g'))"
proof
  assume "ParseParenExpr f (Suc n) g = Some (Some V, g')"
  then show "\<exists>t g1 g2 t'. getNextToken f n g = Some (t, g1) \<and>
        ParseExpression f n g1 = Some (Some V, g2) \<and> CurTok g2 = ord CHR '')'' \<and>
        getNextToken f n g2 = Some (t', g')"
    by (auto simp: bind_eq_Some_iff LogError_def split: option.splits if_splits
        simp del: ParseExpression.simps)
next
  assume "\<exists>t g1 g2 t'. getNextToken f n g = Some (t, g1) \<and>
        ParseExpression f n g1 = Some (Some V, g2) \<and> CurTok g2 = ord CHR '')'' \<and>
        getNextToken f n g2 = Some (t', g')"
  then obtain t g1 g2 t' where "getNextToken f n g = Some (t, g1)"
    "ParseExpression f n g1 = Some (Some V, g2)" "CurTok g2 = ord CHR '')''"
    "getNextToken f n g2 = Some (t', g')" by blast
  then show "ParseParenExpr f (Suc n) g = Some (Some V, g')"
    by (simp del: ParseExpression.simps)
qed

lemma paren_examples_20:
  "outcome (on_input f 20 ''(1+2)*3;'' ParseExpression) =
     Some (Some (BinaryExprAST CHR ''*''
             (BinaryExprAST CHR ''+'' (NumberExprAST 1) (NumberExprAST 2)) (NumberExprAST 3)),
           ord CHR '';'', [''ready > ''])"
  "outcome (on_input f 20 ''((1+2))*3;'' ParseExpression) =
     Some (Some (BinaryExprAST CHR ''*''
             (BinaryExprAST CHR ''+'' (NumberExprAST 1) (NumberExprAST 2)) (NumberExprAST 3)),
           ord CHR '';'', [''ready > ''])"
  "outcome (on_input f 20 ''1+2;'' ParseExpression) =
     Some (Some (BinaryExprAST CHR ''+'' (NumberExprAST 1) (NumberExprAST 2)),
           ord CHR '';'', [''ready > ''])"
  by (cases f; simp add: ev eval_nat_numeral)+

text \<open>
  At a \<^verbatim>\<open>(\<close>, \<^verbatim>\<open>ParsePrimary\<close> is \<^verbatim>\<open>ParseParenExpr\<close>; and \<^verbatim>\<open>ParseBinOpRHS\<close> returns its left-hand
  side as it is when the current token has a precedence below the bound.
\<close>

lemma GetTokPrecedence_CurTok: "CurTok (snd (GetTokPrecedence g)) = CurTok g"
  by (simp add: GetTokPrecedence_def Let_def split: option.splits)

lemma ParsePrimary_paren:
  "CurTok g = ord CHR ''('' \<Longrightarrow> ParsePrimary f (Suc n) g = ParseParenExpr f n g"
  by (simp add: ord_def del: ParseParenExpr.simps)

lemma ParseBinOpRHS_no_operator:
  "fst (GetTokPrecedence g) < ExprPrec \<Longrightarrow>
     ParseBinOpRHS f (Suc n) ExprPrec LHS g = Some (Some LHS, snd (GetTokPrecedence g))"
  by (simp add: case_prod_unfold Let_def del: ParsePrimary.simps)

lemma parenthesised_expression:
  assumes "ParseParenExpr f n g = Some (Some V, g')" and "CurTok g = ord CHR ''(''"
    and "fst (GetTokPrecedence g') < 0"
  shows "ParseExpression f (Suc (Suc n)) g = Some (Some V, snd (GetTokPrecedence g'))"
proof -
  have "ParsePrimary f (Suc n) g = Some (Some V, g')"
    using assms(1,2) by (simp only: ParsePrimary_paren)
  moreover have "ParseBinOpRHS f (Suc n) 0 V g' = Some (Some V, snd (GetTokPrecedence g'))"
    using assms(3) by (rule ParseBinOpRHS_no_operator)
  ultimately show ?thesis
    by (subst ParseExpression.simps(2)) (simp del: ParsePrimary.simps ParseBinOpRHS.simps)
qed

lemma doubled_parentheses:
  assumes "getNextToken f (Suc (Suc n)) g = Some (t, g1)" and "CurTok g1 = ord CHR ''(''"
    and "ParseParenExpr f n g1 = Some (Some V, g2)"
    and "CurTok g2 = ord CHR '')''" and "fst (GetTokPrecedence g2) < 0"
    and "getNextToken f (Suc (Suc n)) (snd (GetTokPrecedence g2)) = Some (t', g3)"
  shows "ParseParenExpr f (Suc (Suc (Suc n))) g = Some (Some V, g3)"
proof -
  have "ParseExpression f (Suc (Suc n)) g1 = Some (Some V, snd (GetTokPrecedence g2))"
    by (rule parenthesised_expression[OF assms(3,2,5)])
  moreover have "CurTok (snd (GetTokPrecedence g2)) = ord CHR '')''"
    using assms(4) by (simp add: GetTokPrecedence_CurTok)
  ultimately show ?thesis
    using assms(1,6) ParseParenExpr_Some_iff[of f "Suc (Suc n)" g V g3] by blast
qed

text \<open>
  A closing parenthesis is no operator when the table has no positive entry for it. The lexer
  never touches the table, the parser only adds to it the entries \<^verbatim>\<open>0\<close> that the look-up of an
  absent key creates, and \<^verbatim>\<open>main\<close> installs \<^verbatim>\<open><\<close>, \<^verbatim>\<open>+\<close>, \<^verbatim>\<open>-\<close> and \<^verbatim>\<open>*\<close>: on every run the closing
  parenthesis is no operator.
\<close>

lemma close_paren_precedence:
  "CurTok g = ord CHR '')'' \<Longrightarrow>
   (case BinopPrecedence g CHR '')'' of None \<Rightarrow> True | Some p \<Rightarrow> p \<le> 0) \<Longrightarrow>
   fst (GetTokPrecedence g) < 0"
  by (auto simp: GetTokPrecedence_def Let_def ord_def chr_def char_of_def isascii_def split: option.splits)

lemma getBufChar_BinopPrecedence:
  "BinopPrecedence (snd (getBufChar g)) = BinopPrecedence g"
  by (simp add: getBufChar_def getline_def Let_def split: list.split)

lemma gettok_space_BinopPrecedence:
  "gettok_space n g = Some g' \<Longrightarrow> BinopPrecedence g' = BinopPrecedence g"
proof (induction n arbitrary: g)
  case 0
  then show ?case by simp
next
  case (Suc n)
  show ?case
  proof (cases "isspace (LastChar g)")
    case True
    with Suc.prems have
      "gettok_space n ((snd (getBufChar g))\<lparr>LastChar := ord (fst (getBufChar g))\<rparr>) = Some g'"
      by (simp add: case_prod_unfold Let_def)
    from Suc.IH[OF this] show ?thesis by (simp add: getBufChar_BinopPrecedence)
  next
    case False
    with Suc.prems show ?thesis by simp
  qed
qed

lemma gettok_identifier_BinopPrecedence:
  "gettok_identifier n g = Some g' \<Longrightarrow> BinopPrecedence g' = BinopPrecedence g"
proof (induction n arbitrary: g)
  case 0
  then show ?case by simp
next
  case (Suc n)
  let ?g2 = "(snd (getBufChar g))\<lparr>LastChar := ord (fst (getBufChar g))\<rparr>"
  show ?case
  proof (cases "isalnum (LastChar ?g2)")
    case True
    with Suc.prems have
      "gettok_identifier n (?g2\<lparr>IdentifierStr := IdentifierStr ?g2 @ [chr (LastChar ?g2)]\<rparr>) = Some g'"
      by (simp add: case_prod_unfold Let_def)
    from Suc.IH[OF this] show ?thesis by (simp add: getBufChar_BinopPrecedence)
  next
    case False
    with Suc.prems have "g' = ?g2" by (simp add: case_prod_unfold Let_def)
    then show ?thesis by (simp add: getBufChar_BinopPrecedence)
  qed
qed

lemma gettok_number_BinopPrecedence:
  "gettok_number n s g = Some (s', g') \<Longrightarrow> BinopPrecedence g' = BinopPrecedence g"
proof (induction n arbitrary: g s)
  case 0
  then show ?case by simp
next
  case (Suc n)
  let ?g2 = "(snd (getBufChar g))\<lparr>LastChar := ord (fst (getBufChar g))\<rparr>"
  show ?case
  proof (cases "isdigit (LastChar ?g2) \<or> LastChar ?g2 = ord CHR ''.''")
    case True
    with Suc.prems have "gettok_number n (s @ [chr (LastChar g)]) ?g2 = Some (s', g')"
      by (simp add: case_prod_unfold Let_def)
    from Suc.IH[OF this] show ?thesis by (simp add: getBufChar_BinopPrecedence)
  next
    case False
    with Suc.prems have "g' = ?g2" by (simp add: case_prod_unfold Let_def)
    then show ?thesis by (simp add: getBufChar_BinopPrecedence)
  qed
qed

lemma gettok_comment_BinopPrecedence:
  "gettok_comment n g = Some g' \<Longrightarrow> BinopPrecedence g' = BinopPrecedence g"
proof (induction n arbitrary: g)
  case 0
  then show ?case by simp
next
  case (Suc n)
  let ?g2 = "(snd (getBufChar g))\<lparr>LastChar := ord (fst (getBufChar g))\<rparr>"
  show ?case
  proof (cases "LastChar ?g2 \<noteq> EOF \<and> LastChar ?g2 \<noteq> ord CHR ''\<newline>'' \<and> LastChar ?g2 \<noteq> ord (CHR 0x0D)")
    case True
    with Suc.prems have "gettok_comment n ?g2 = Some g'"
      by (simp add: case_prod_unfold Let_def)
    from Suc.IH[OF this] show ?thesis by (simp add: getBufChar_BinopPrecedence)
  next
    case False
    with Suc.prems have "g' = ?g2" by (auto simp: case_prod_unfold Let_def)
    then show ?thesis by (simp add: getBufChar_BinopPrecedence)
  qed
qed

lemma gettok_BinopPrecedence:
  "gettok f n g = Some (t, g') \<Longrightarrow> BinopPrecedence g' = BinopPrecedence g"
proof (induction n arbitrary: g)
  case 0
  then show ?case by simp
next
  case (Suc n)
  show ?case
  proof (cases "f = main_cpp \<and> LastChar g = ord CHR ''\<newline>''")
    case True
    with Suc.prems show ?thesis by auto
  next
    case False
    with Suc.prems obtain g1 where sp: "gettok_space n g = Some g1"
      and rest: "(if isalpha (LastChar g1) then do {
         g2 \<leftarrow> gettok_identifier n (g1\<lparr>IdentifierStr := [chr (LastChar g1)]\<rparr>);
         Some (if IdentifierStr g2 = ''def'' then tok_def
               else if IdentifierStr g2 = ''extern'' then tok_extern
               else tok_identifier, g2)
       }
       else if isdigit (LastChar g1) \<or> LastChar g1 = ord CHR ''.'' then do {
         (NumStr, g2) \<leftarrow> gettok_number n [] g1;
         Some (tok_number, g2\<lparr>NumVal := strtod NumStr\<rparr>)
       }
       else do {
         g2 \<leftarrow> (if LastChar g1 = ord CHR ''#'' then gettok_comment n g1 else Some g1);
         if LastChar g1 = ord CHR ''#'' \<and> LastChar g2 \<noteq> EOF then gettok f n g2
         else if LastChar g2 = EOF then Some (tok_eof, g2)
         else (let ThisChar = LastChar g2; (c, g3) = getBufChar g2
               in Some (ThisChar, g3\<lparr>LastChar := ord c\<rparr>))
       }) = Some (t, g')"
      by (subst (asm) gettok.simps) (auto simp: bind_eq_Some_iff simp del: gettok.simps)
    note b1 = gettok_space_BinopPrecedence[OF sp]
    show ?thesis
    proof (cases "isalpha (LastChar g1)")
      case True
      with rest obtain g2 where
        "gettok_identifier n (g1\<lparr>IdentifierStr := [chr (LastChar g1)]\<rparr>) = Some g2"
        and "g' = g2"
        by (auto simp: bind_eq_Some_iff split: if_splits)
      with gettok_identifier_BinopPrecedence[of n "g1\<lparr>IdentifierStr := [chr (LastChar g1)]\<rparr>" g2] b1
      show ?thesis by simp
    next
      case na: False
      show ?thesis
      proof (cases "isdigit (LastChar g1) \<or> LastChar g1 = ord CHR ''.''")
        case True
        with na rest obtain s g2 where "gettok_number n [] g1 = Some (s, g2)"
          and "g' = g2\<lparr>NumVal := strtod s\<rparr>"
          by (auto simp: bind_eq_Some_iff split: prod.splits)
        with gettok_number_BinopPrecedence[of n "[]" g1 s g2] b1
        show ?thesis by simp
      next
        case nd: False
        show ?thesis
        proof (cases "LastChar g1 = ord CHR ''#''")
          case True
          with na nd rest obtain g2 where c: "gettok_comment n g1 = Some g2"
            and r2: "(if LastChar g2 \<noteq> EOF then gettok f n g2 else Some (tok_eof, g2)) = Some (t, g')"
            by (auto simp: bind_eq_Some_iff split: if_splits)
          note b2 = gettok_comment_BinopPrecedence[OF c]
          show ?thesis
          proof (cases "LastChar g2 = EOF")
            case True
            with r2 b2 b1 show ?thesis by simp
          next
            case False
            with r2 have "gettok f n g2 = Some (t, g')" by simp
            from Suc.IH[OF this] b2 b1 show ?thesis by simp
          qed
        next
          case False
          from False na nd rest have
            "g' = g1 \<or> g' = (snd (getBufChar g1))\<lparr>LastChar := ord (fst (getBufChar g1))\<rparr>"
            by (auto simp: Let_def case_prod_unfold split: if_splits)
          with b1 show ?thesis by (auto simp: getBufChar_BinopPrecedence)
        qed
      qed
    qed
  qed
qed

lemma keeps_that_getNextToken:
  "no_close_operator g \<Longrightarrow> keeps_that no_close_operator (getNextToken f n g)"
  by (auto simp: keeps_that_def getNextToken_def bind_eq_Some_iff no_close_operator_def
      dest!: gettok_BinopPrecedence)

lemma keeps_that_None: "keeps_that P None"
  by (simp add: keeps_that_def)

lemma keeps_that_Some: "P (snd x) \<Longrightarrow> keeps_that P (Some x)"
  by (simp add: keeps_that_def)

lemma keeps_that_bind:
  "keeps_that P m \<Longrightarrow> (\<And>x. P (snd x) \<Longrightarrow> keeps_that P (k x)) \<Longrightarrow> keeps_that P (m \<bind> k)"
  by (cases m) (auto simp: keeps_that_def)

lemma keeps_that_if:
  "(c \<Longrightarrow> keeps_that P a) \<Longrightarrow> (\<not> c \<Longrightarrow> keeps_that P b) \<Longrightarrow> keeps_that P (if c then a else b)"
  by simp

lemma keeps_that_option:
  "keeps_that P a \<Longrightarrow> (\<And>y. keeps_that P (F y)) \<Longrightarrow> keeps_that P (case_option a F x)"
  by (cases x) simp_all

lemma no_close_operator_GetTokPrecedence:
  "no_close_operator g \<Longrightarrow> no_close_operator (snd (GetTokPrecedence g))"
  by (auto simp: GetTokPrecedence_def Let_def no_close_operator_def split: option.splits)

lemma no_close_operator_LogError: "no_close_operator g \<Longrightarrow> no_close_operator (snd (LogError s g))"
  by (simp add: LogError_def no_close_operator_def)

lemmas keeps_that_intros = keeps_that_None keeps_that_bind keeps_that_if keeps_that_option
  keeps_that_Some keeps_that_getNextToken

lemma keeps_that_ParseNumberExpr:
  "no_close_operator g \<Longrightarrow> keeps_that no_close_operator (ParseNumberExpr f n g)"
  unfolding ParseNumberExpr_def Let_def case_prod_unfold
  by (intro keeps_that_intros) simp_all

lemma keeps_that_Parse:
  "(\<forall>g. no_close_operator g \<longrightarrow> keeps_that no_close_operator (ParseParenExpr f n g)) \<and>
   (\<forall>g. no_close_operator g \<longrightarrow> keeps_that no_close_operator (ParseIdentifierExpr f n g)) \<and>
   (\<forall>g A. no_close_operator g \<longrightarrow> keeps_that no_close_operator (ParseIdentifierExpr_args f n A g)) \<and>
   (\<forall>g. no_close_operator g \<longrightarrow> keeps_that no_close_operator (ParsePrimary f n g)) \<and>
   (\<forall>g. no_close_operator g \<longrightarrow> keeps_that no_close_operator (ParseExpression f n g)) \<and>
   (\<forall>g p L. no_close_operator g \<longrightarrow> keeps_that no_close_operator (ParseBinOpRHS f n p L g))"
proof (induction n)
  case 0
  show ?case by (simp add: keeps_that_None)
next
  case (Suc n)
  note IH = Suc.IH[THEN conjunct1, rule_format]
    Suc.IH[THEN conjunct2, THEN conjunct1, rule_format]
    Suc.IH[THEN conjunct2, THEN conjunct2, THEN conjunct1, rule_format]
    Suc.IH[THEN conjunct2, THEN conjunct2, THEN conjunct2, THEN conjunct1, rule_format]
    Suc.IH[THEN conjunct2, THEN conjunct2, THEN conjunct2, THEN conjunct2, THEN conjunct1,
      rule_format]
    Suc.IH[THEN conjunct2, THEN conjunct2, THEN conjunct2, THEN conjunct2, THEN conjunct2,
      rule_format]
  note rules = keeps_that_intros IH keeps_that_ParseNumberExpr
  note side = no_close_operator_GetTokPrecedence no_close_operator_LogError
  have 1: "keeps_that no_close_operator (ParseParenExpr f (Suc n) g)" if "no_close_operator g" for g
    unfolding ParseParenExpr.simps(2)[where n=n] Let_def case_prod_unfold
    using that by (intro rules) (simp_all add: side)
  have 2: "keeps_that no_close_operator (ParseIdentifierExpr f (Suc n) g)" if "no_close_operator g" for g
    unfolding ParseIdentifierExpr.simps(2)[where n=n] Let_def case_prod_unfold
    using that by (intro rules) (simp_all add: side)
  have 3: "keeps_that no_close_operator (ParseIdentifierExpr_args f (Suc n) A g)" if "no_close_operator g" for g A
    unfolding ParseIdentifierExpr_args.simps(2)[where n=n] Let_def case_prod_unfold
    using that by (intro rules) (simp_all add: side)
  have 4: "keeps_that no_close_operator (ParsePrimary f (Suc n) g)" if "no_close_operator g" for g
    unfolding ParsePrimary.simps(2)[where n=n] Let_def case_prod_unfold
    using that by (intro rules) (simp_all add: side)
  have 5: "keeps_that no_close_operator (ParseExpression f (Suc n) g)" if "no_close_operator g" for g
    unfolding ParseExpression.simps(2)[where n=n] Let_def case_prod_unfold
    using that by (intro rules) (simp_all add: side)
  have 6: "keeps_that no_close_operator (ParseBinOpRHS f (Suc n) p L g)" if "no_close_operator g" for g p L
    unfolding ParseBinOpRHS.simps(2)[where n=n] Let_def case_prod_unfold
    using that by (intro rules) (simp_all add: side)
  show ?case using 1 2 3 4 5 6 by blast
qed

lemma ParseParenExpr_no_close_operator:
  assumes "no_close_operator g" and "ParseParenExpr f n g = Some (r, g')"
  shows "no_close_operator g'"
proof -
  from keeps_that_Parse[of f n, THEN conjunct1, rule_format, OF assms(1)]
  have "keeps_that no_close_operator (ParseParenExpr f n g)" .
  with assms(2) show ?thesis by (simp add: keeps_that_def)
qed

lemma getNextToken_no_close_operator:
  assumes "no_close_operator g" and "getNextToken f n g = Some (t, g')"
  shows "no_close_operator g'"
proof -
  from keeps_that_getNextToken[OF assms(1), of f n] assms(2)
  show ?thesis by (simp add: keeps_that_def)
qed

lemma no_close_operator_precedence:
  "no_close_operator g \<Longrightarrow> CurTok g = ord CHR '')'' \<Longrightarrow> fst (GetTokPrecedence g) < 0"
  using close_paren_precedence[of g] by (simp add: no_close_operator_def)

lemma no_close_operator_installed: "no_close_operator (install_binops (initial input))"
  by (simp add: no_close_operator_def install_binops_def initial_def)

lemma doubled_parentheses_table:
  assumes "no_close_operator g"
    and "getNextToken f (Suc (Suc n)) g = Some (t, g1)" and "CurTok g1 = ord CHR ''(''"
    and "ParseParenExpr f n g1 = Some (Some V, g2)" and "CurTok g2 = ord CHR '')''"
    and "getNextToken f (Suc (Suc n)) (snd (GetTokPrecedence g2)) = Some (t', g3)"
  shows "ParseParenExpr f (Suc (Suc (Suc n))) g = Some (Some V, g3)"
proof -
  have "no_close_operator g1" by (rule getNextToken_no_close_operator[OF assms(1,2)])
  then have "no_close_operator g2" using assms(4) by (rule ParseParenExpr_no_close_operator)
  then have "fst (GetTokPrecedence g2) < 0" using assms(5) by (rule no_close_operator_precedence)
  with assms(2-5) show ?thesis using assms(6) by (rule doubled_parentheses)
qed

lemma primed_no_close_operator:
  assumes "primed f k input = Some G"
  shows "no_close_operator G"
proof -
  from assms obtain t where "getNextToken f k (install_binops (initial input)) = Some (t, G)"
    by (auto simp: primed_def)
  with no_close_operator_installed show ?thesis by (rule getNextToken_no_close_operator)
qed

lemma paren_state_20:
  "map_option (\<lambda>(r, g). (r, CurTok g, fst (GetTokPrecedence g)))
     (on_input f 20 ''(1+2));'' ParseParenExpr) =
   Some (Some (BinaryExprAST CHR ''+'' (NumberExprAST 1) (NumberExprAST 2)), ord CHR '')'', - 1)"
  by (cases f) (simp_all add: ev eval_nat_numeral)

lemma paren_input_20:
  "map_option CurTok (primed f 20 ''(1+2));'') = Some (ord CHR ''('')"
  by (cases f) (simp_all add: ev eval_nat_numeral)

lemma doubled_input_20:
  "(primed f 20 ''((1+2))*3;'' \<bind> (\<lambda>G. getNextToken f 22 G \<bind> (\<lambda>(t, g1).
      ParseParenExpr f 20 g1 \<bind> (\<lambda>(r, g2).
        getNextToken f 22 (snd (GetTokPrecedence g2)) \<bind> (\<lambda>(t', g3).
          Some (CurTok g1, r, CurTok g2, fst (GetTokPrecedence g2), CurTok g3)))))) =
   Some (ord CHR ''('', Some (BinaryExprAST CHR ''+'' (NumberExprAST 1) (NumberExprAST 2)),
         ord CHR '')'', - 1, ord CHR ''*'')"
  by (cases f) (simp_all add: ev eval_nat_numeral)

text \<open>
  C5. \<^verbatim>\<open>ParseParenExpr\<close> returns an expression exactly when \<^verbatim>\<open>ParseExpression\<close>, run after
  the \<^verbatim>\<open>(\<close> is consumed, returns that expression and stops at a \<^verbatim>\<open>)\<close>, which is consumed
  too: the parentheses leave no node. At a \<^verbatim>\<open>(\<close>, \<^verbatim>\<open>ParsePrimary\<close> is \<^verbatim>\<open>ParseParenExpr\<close>, and
  when the token after the closing parenthesis is no operator, \<^verbatim>\<open>ParseExpression\<close> returns
  the expression of the parentheses as it is. So a second pair of parentheses around a
  parenthesised expression gives the expression of the first pair: in a state where \<^verbatim>\<open>)\<close> is
  no operator, as is every state that the parser is entered in, whatever \<^verbatim>\<open>(e)\<close> parses to
  before a \<^verbatim>\<open>)\<close>, \<^verbatim>\<open>((e))\<close> parses to, and \<^verbatim>\<open>)\<close> is no operator afterwards either. In
  particular \<^verbatim>\<open>(1+2)*3\<close> and \<^verbatim>\<open>((1+2))*3\<close> have the same tree, whose left operand is the tree
  of \<^verbatim>\<open>1+2\<close>.
\<close>

theorem ParseParenExpr_transparent:
  assumes "20 \<le> m"
  shows "(ParseParenExpr f (Suc n) g = Some (Some V, g') \<longleftrightarrow>
       (\<exists>t g1 g2 t'. getNextToken f n g = Some (t, g1) \<and>
          ParseExpression f n g1 = Some (Some V, g2) \<and> CurTok g2 = ord CHR '')'' \<and>
          getNextToken f n g2 = Some (t', g'))) \<and>
     (CurTok h = ord CHR ''('' \<longrightarrow> ParsePrimary f (Suc n) h = ParseParenExpr f n h) \<and>
     (ParseParenExpr f n h = Some (Some W, h') \<and> CurTok h = ord CHR ''('' \<and>
      fst (GetTokPrecedence h') < 0 \<longrightarrow>
        ParseExpression f (Suc (Suc n)) h = Some (Some W, snd (GetTokPrecedence h'))) \<and>
     (no_close_operator h0 \<and>
      getNextToken f (Suc (Suc n)) h0 = Some (u, h) \<and> CurTok h = ord CHR ''('' \<and>
      ParseParenExpr f n h = Some (Some W, h') \<and> CurTok h' = ord CHR '')'' \<and>
      getNextToken f (Suc (Suc n)) (snd (GetTokPrecedence h')) = Some (u', h'') \<longrightarrow>
        ParseParenExpr f (Suc (Suc (Suc n))) h0 = Some (Some W, h'') \<and> no_close_operator h'') \<and>
     (primed f k input = Some G \<longrightarrow> no_close_operator G) \<and>
     outcome (on_input f m ''(1+2)*3;'' ParseExpression) =
       outcome (on_input f m ''((1+2))*3;'' ParseExpression) \<and>
     outcome (on_input f m ''(1+2)*3;'' ParseExpression) =
       Some (Some (BinaryExprAST CHR ''*''
               (BinaryExprAST CHR ''+'' (NumberExprAST 1) (NumberExprAST 2)) (NumberExprAST 3)),
             ord CHR '';'', [''ready > '']) \<and>
     outcome (on_input f m ''1+2;'' ParseExpression) =
       Some (Some (BinaryExprAST CHR ''+'' (NumberExprAST 1) (NumberExprAST 2)),
             ord CHR '';'', [''ready > ''])"
proof -
  have 1: "outcome (on_input f m ''(1+2)*3;'' ParseExpression) =
       Some (Some (BinaryExprAST CHR ''*''
               (BinaryExprAST CHR ''+'' (NumberExprAST 1) (NumberExprAST 2)) (NumberExprAST 3)),
             ord CHR '';'', [''ready > ''])"
    by (rule enough_fuel[where F="\<lambda>n. outcome (on_input f n ''(1+2)*3;'' ParseExpression)",
          OF _ paren_examples_20(1) assms])
       (rule on_input_mono, rule ParseExpression_mono)
  have 2: "outcome (on_input f m ''((1+2))*3;'' ParseExpression) =
       Some (Some (BinaryExprAST CHR ''*''
               (BinaryExprAST CHR ''+'' (NumberExprAST 1) (NumberExprAST 2)) (NumberExprAST 3)),
             ord CHR '';'', [''ready > ''])"
    by (rule enough_fuel[where F="\<lambda>n. outcome (on_input f n ''((1+2))*3;'' ParseExpression)",
          OF _ paren_examples_20(2) assms])
       (rule on_input_mono, rule ParseExpression_mono)
  have 3: "outcome (on_input f m ''1+2;'' ParseExpression) =
       Some (Some (BinaryExprAST CHR ''+'' (NumberExprAST 1) (NumberExprAST 2)),
             ord CHR '';'', [''ready > ''])"
    by (rule enough_fuel[where F="\<lambda>n. outcome (on_input f n ''1+2;'' ParseExpression)",
          OF _ paren_examples_20(3) assms])
       (rule on_input_mono, rule ParseExpression_mono)
  have 4: "CurTok h = ord CHR ''('' \<longrightarrow> ParsePrimary f (Suc n) h = ParseParenExpr f n h"
    using ParsePrimary_paren[of h f n] by blast
  have 5: "ParseParenExpr f n h = Some (Some W, h') \<and> CurTok h = ord CHR ''('' \<and>
      fst (GetTokPrecedence h') < 0 \<longrightarrow>
        ParseExpression f (Suc (Suc n)) h = Some (Some W, snd (GetTokPrecedence h'))"
    using parenthesised_expression[of f n h W h'] by blast
  have 6: "no_close_operator h0 \<and>
      getNextToken f (Suc (Suc n)) h0 = Some (u, h) \<and> CurTok h = ord CHR ''('' \<and>
      ParseParenExpr f n h = Some (Some W, h') \<and> CurTok h' = ord CHR '')'' \<and>
      getNextToken f (Suc (Suc n)) (snd (GetTokPrecedence h')) = Some (u', h'') \<longrightarrow>
        ParseParenExpr f (Suc (Suc (Suc n))) h0 = Some (Some W, h'') \<and> no_close_operator h''"
  proof (intro impI, elim conjE)
    assume a: "no_close_operator h0" "getNextToken f (Suc (Suc n)) h0 = Some (u, h)"
      "CurTok h = ord CHR ''(''" "ParseParenExpr f n h = Some (Some W, h')"
      "CurTok h' = ord CHR '')''"
      "getNextToken f (Suc (Suc n)) (snd (GetTokPrecedence h')) = Some (u', h'')"
    then have r: "ParseParenExpr f (Suc (Suc (Suc n))) h0 = Some (Some W, h'')"
      by (rule doubled_parentheses_table)
    from a(1) r have "no_close_operator h''" by (rule ParseParenExpr_no_close_operator)
    with r show "ParseParenExpr f (Suc (Suc (Suc n))) h0 = Some (Some W, h'') \<and>
      no_close_operator h''" by simp
  qed
  have 8: "primed f k input = Some G \<longrightarrow> no_close_operator G"
    using primed_no_close_operator[of f k input G] by blast
  from 1 2 have 7: "outcome (on_input f m ''(1+2)*3;'' ParseExpression) =
       outcome (on_input f m ''((1+2))*3;'' ParseExpression)" by simp
  from ParseParenExpr_Some_iff[of f n g V g'] 4 5 6 8 7 1 3 show ?thesis by (intro conjI)
qed

theorem ParseParenExpr_transparent_witness:
  "map_option fst (primed main_cpp 20 ''(1+2));'' \<bind> ParseExpression main_cpp 22) =
     Some (Some (BinaryExprAST CHR ''+'' (NumberExprAST 1) (NumberExprAST 2))) \<and>
   map_option (\<lambda>(r, g). (r, CurTok g))
     (primed main_cpp 20 ''((1+2))*3;'' \<bind> ParseParenExpr main_cpp 23) =
     Some (Some (BinaryExprAST CHR ''+'' (NumberExprAST 1) (NumberExprAST 2)), ord CHR ''*'') \<and>
   (outcome (on_input main_cpp 20 ''(1+2)*3;'' ParseExpression) =
     outcome (on_input main_cpp 20 ''((1+2))*3;'' ParseExpression) \<and>
    outcome (on_input main_cpp 20 ''(1+2)*3;'' ParseExpression) =
     Some (Some (BinaryExprAST CHR ''*''
             (BinaryExprAST CHR ''+'' (NumberExprAST 1) (NumberExprAST 2)) (NumberExprAST 3)),
           ord CHR '';'', [''ready > '']) \<and>
    outcome (on_input main_cpp 20 ''1+2;'' ParseExpression) =
     Some (Some (BinaryExprAST CHR ''+'' (NumberExprAST 1) (NumberExprAST 2)),
           ord CHR '';'', [''ready > '']))"
proof (intro conjI)
  let ?V = "BinaryExprAST CHR ''+'' (NumberExprAST 1) (NumberExprAST 2)"
  from paren_state_20[of main_cpp] obtain G g' where
    G: "primed main_cpp 20 ''(1+2));'' = Some G"
    and P: "ParseParenExpr main_cpp 20 G = Some (Some ?V, g')"
    and p: "fst (GetTokPrecedence g') = - 1"
    by (auto simp: on_input_def bind_eq_Some_iff)
  from paren_input_20[of main_cpp] G have "CurTok G = ord CHR ''(''" by simp
  moreover have n22: "Suc (Suc 20) = 22" by simp
  ultimately have "ParseExpression main_cpp 22 G = Some (Some ?V, snd (GetTokPrecedence g'))"
    using P p ParseParenExpr_transparent[where m=20 and f=main_cpp and n=20 and h=G and W="?V"
      and h'=g', OF order_refl, THEN conjunct2, THEN conjunct2, THEN conjunct1, unfolded n22]
    by simp
  with G show "map_option fst (primed main_cpp 20 ''(1+2));'' \<bind> ParseExpression main_cpp 22) =
     Some (Some ?V)"
    by simp
next
  let ?V = "BinaryExprAST CHR ''+'' (NumberExprAST 1) (NumberExprAST 2)"
  from doubled_input_20[of main_cpp] obtain G t g1 g2 t' g3 where
    G: "primed main_cpp 20 ''((1+2))*3;'' = Some G"
    and a: "getNextToken main_cpp 22 G = Some (t, g1)" "CurTok g1 = ord CHR ''(''"
      "ParseParenExpr main_cpp 20 g1 = Some (Some ?V, g2)" "CurTok g2 = ord CHR '')''"
      "getNextToken main_cpp 22 (snd (GetTokPrecedence g2)) = Some (t', g3)"
      "CurTok g3 = ord CHR ''*''"
    by (auto simp: bind_eq_Some_iff)
  have n22: "Suc (Suc 20) = 22" "Suc (Suc (Suc 20)) = 23" by simp_all
  from G ParseParenExpr_transparent[where m=20 and f=main_cpp and k=20
      and input="''((1+2))*3;''" and G=G, OF order_refl,
      THEN conjunct2, THEN conjunct2, THEN conjunct2, THEN conjunct2, THEN conjunct1]
  have t: "no_close_operator G" by simp
  from t a ParseParenExpr_transparent[where m=20 and f=main_cpp and n=20 and ?h0.0=G and u=t
      and h=g1 and W="?V" and h'=g2 and u'=t' and h''=g3, OF order_refl,
      THEN conjunct2, THEN conjunct2, THEN conjunct2, THEN conjunct1, unfolded n22]
  have "ParseParenExpr main_cpp 23 G = Some (Some ?V, g3)"
    by simp
  with G a(6) show "map_option (\<lambda>(r, g). (r, CurTok g))
     (primed main_cpp 20 ''((1+2))*3;'' \<bind> ParseParenExpr main_cpp 23) =
     Some (Some ?V, ord CHR ''*'')"
    by simp
next
  note c = ParseParenExpr_transparent[of 20 main_cpp, OF order_refl, THEN conjunct2,
      THEN conjunct2, THEN conjunct2, THEN conjunct2, THEN conjunct2]
  show "outcome (on_input main_cpp 20 ''(1+2)*3;'' ParseExpression) =
     outcome (on_input main_cpp 20 ''((1+2))*3;'' ParseExpression)"
    by (rule c[THEN conjunct1])
  show "outcome (on_input main_cpp 20 ''(1+2)*3;'' ParseExpression) =
     Some (Some (BinaryExprAST CHR ''*''
             (BinaryExprAST CHR ''+'' (NumberExprAST 1) (NumberExprAST 2)) (NumberExprAST 3)),
           ord CHR '';'', [''ready > ''])"
    by (rule c[THEN conjunct2, THEN conjunct1])
  show "outcome (on_input main_cpp 20 ''1+2;'' ParseExpression) =
     Some (Some (BinaryExprAST CHR ''+'' (NumberExprAST 1) (NumberExprAST 2)),
           ord CHR '';'', [''ready > ''])"
    by (rule c[THEN conjunct2, THEN conjunct2])
qed

section \<open>Prototypes and definitions\<close>

lemma ParsePrototype_args_last:
  "ParsePrototype_args f n A g = Some (A', g') \<Longrightarrow> CurTok g' \<noteq> tok_identifier \<and> (\<exists>B. A' = A @ B)"
proof (induction n arbitrary: A g)
  case 0
  then show ?case by simp
next
  case (Suc n)
  from Suc.prems obtain t g1 where
    tok: "gettok f n g = Some (t, g1)"
    and rest: "(if t = tok_identifier
         then ParsePrototype_args f n (A @ [IdentifierStr (g1\<lparr>CurTok := t\<rparr>)]) (g1\<lparr>CurTok := t\<rparr>)
         else Some (A, g1\<lparr>CurTok := t\<rparr>)) = Some (A', g')"
    by (auto simp: bind_eq_Some_iff getNextToken_def)
  show ?case
  proof (cases "t = tok_identifier")
    case True
    with rest Suc.IH[of "A @ [IdentifierStr (g1\<lparr>CurTok := t\<rparr>)]" "g1\<lparr>CurTok := t\<rparr>"]
    show ?thesis by auto
  next
    case False
    with rest show ?thesis by auto
  qed
qed

text \<open>
  A definition with two parameters, written without a comma, and the same with a comma, which
  is not accepted: the comma ends the parameter list, and \<^verbatim>\<open>)\<close> is expected in its place.
\<close>

lemma def_examples_20:
  "outcome (on_input f 20 ''def foo(a b) a+b;'' ParseDefinition) =
     Some (Some (FunctionAST (PrototypeAST ''foo'' [''a'', ''b''])
             (BinaryExprAST CHR ''+'' (VariableExprAST ''a'') (VariableExprAST ''b''))),
           ord CHR '';'', [''ready > ''])"
  "outcome (on_input f 20 ''def foo(a, b) a+b;'' ParseDefinition) =
     Some (None, ord CHR '','', [''ready > '', ''LogError: expected ')'' @ [CHR 0x27] @ ''\<newline>''])"
  by (cases f; simp add: ev eval_nat_numeral ParsePrototype_def ParseDefinition_def)+

lemma getNextToken_CurTok: "getNextToken f n g = Some (t, g1) \<Longrightarrow> CurTok g1 = t"
  by (auto simp: getNextToken_def bind_eq_Some_iff)

lemma ParsePrototype_no_name:
  "CurTok g \<noteq> tok_identifier \<Longrightarrow>
      ParsePrototype f n g =
        Some (None, g\<lparr>stderr := stderr g @ [''LogError: expected function name\<newline>'']\<rparr>)"
  by (simp add: ParsePrototype_def LogErrorP_def LogError_def)

lemma ParsePrototype_no_open:
  "CurTok g = tok_identifier \<Longrightarrow> getNextToken f n g = Some (t, g1) \<Longrightarrow> t \<noteq> ord CHR ''('' \<Longrightarrow>
      ParsePrototype f n g =
        Some (None, g1\<lparr>stderr := stderr g1 @ [''LogError: expected '('' @ [CHR 0x27] @ ''\<newline>'']\<rparr>)"
  using getNextToken_CurTok[of f n g t g1]
  by (simp add: ParsePrototype_def LogErrorP_def LogError_def)

lemma ParsePrototype_no_close:
  "CurTok g = tok_identifier \<Longrightarrow> getNextToken f n g = Some (ord CHR ''('', g1) \<Longrightarrow>
    ParsePrototype_args f n [] g1 = Some (ArgNames, g2) \<Longrightarrow> CurTok g2 \<noteq> ord CHR '')'' \<Longrightarrow>
      ParsePrototype f n g =
        Some (None, g2\<lparr>stderr := stderr g2 @ [''LogError: expected ')'' @ [CHR 0x27] @ ''\<newline>'']\<rparr>)"
  using getNextToken_CurTok[of f n g "ord CHR ''(''" g1]
  by (simp add: ParsePrototype_def LogErrorP_def LogError_def)

lemma ParsePrototype_success:
  "CurTok g = tok_identifier \<Longrightarrow> getNextToken f n g = Some (ord CHR ''('', g1) \<Longrightarrow>
    ParsePrototype_args f n [] g1 = Some (ArgNames, g2) \<Longrightarrow> CurTok g2 = ord CHR '')'' \<Longrightarrow>
    getNextToken f n g2 = Some (t', g3) \<Longrightarrow>
      ParsePrototype f n g = Some (Some (PrototypeAST (IdentifierStr g) ArgNames), g3)"
  using getNextToken_CurTok[of f n g "ord CHR ''(''" g1]
  by (simp add: ParsePrototype_def)

lemma ParsePrototype_args_step:
  "getNextToken f n g = Some (t, g1) \<Longrightarrow>
     ParsePrototype_args f (Suc n) A g =
       (if t = tok_identifier then ParsePrototype_args f n (A @ [IdentifierStr g1]) g1
        else Some (A, g1))"
  by simp

lemma def_line_main_cpp_20:
  "outcome (on_input main_cpp 20 ''def foo(a b) a+b'' ParseDefinition) =
     Some (Some (FunctionAST (PrototypeAST ''foo'' [''a'', ''b''])
             (BinaryExprAST CHR ''+'' (VariableExprAST ''a'') (VariableExprAST ''b''))),
           ord CHR '';'', [''ready > ''])"
  by (simp add: ev eval_nat_numeral ParsePrototype_def ParseDefinition_def)

text \<open>
  C6. \<^verbatim>\<open>ParsePrototype\<close> fails with \<^verbatim>\<open>expected function name\<close> when the current token is not
  an identifier, with \<^verbatim>\<open>expected '('\<close> when the next token is not \<^verbatim>\<open>(\<close>, and with
  \<^verbatim>\<open>expected ')'\<close> when the token that ends the parameter list is not \<^verbatim>\<open>)\<close>; otherwise it
  returns the prototype of the name and the parameters. The parameter loop takes identifiers
  one after the other, with nothing between them, and stops at the first token that is not an
  identifier. \<^verbatim>\<open>def foo(a b) a+b\<close> parses as the function \<^verbatim>\<open>foo\<close> with the parameters
  \<^verbatim>\<open>a\<close>, \<^verbatim>\<open>b\<close> and the body \<^verbatim>\<open>a+b\<close>.
\<close>

theorem ParsePrototype_grammar:
  assumes "20 \<le> m"
  shows
   "(CurTok g \<noteq> tok_identifier \<longrightarrow>
      ParsePrototype f n g =
        Some (None, g\<lparr>stderr := stderr g @ [''LogError: expected function name\<newline>'']\<rparr>)) \<and>
    (CurTok g = tok_identifier \<and> getNextToken f n g = Some (t, g1) \<and> t \<noteq> ord CHR ''('' \<longrightarrow>
      ParsePrototype f n g =
        Some (None,
          g1\<lparr>stderr := stderr g1 @ [''LogError: expected '('' @ [CHR 0x27] @ ''\<newline>'']\<rparr>)) \<and>
    (CurTok g = tok_identifier \<and> getNextToken f n g = Some (ord CHR ''('', g1) \<and>
     ParsePrototype_args f n [] g1 = Some (ArgNames, g2) \<and> CurTok g2 \<noteq> ord CHR '')'' \<longrightarrow>
      ParsePrototype f n g =
        Some (None,
          g2\<lparr>stderr := stderr g2 @ [''LogError: expected ')'' @ [CHR 0x27] @ ''\<newline>'']\<rparr>)) \<and>
    (CurTok g = tok_identifier \<and> getNextToken f n g = Some (ord CHR ''('', g1) \<and>
     ParsePrototype_args f n [] g1 = Some (ArgNames, g2) \<and> CurTok g2 = ord CHR '')'' \<and>
     getNextToken f n g2 = Some (t', g3) \<longrightarrow>
      ParsePrototype f n g = Some (Some (PrototypeAST (IdentifierStr g) ArgNames), g3)) \<and>
    (getNextToken f n h = Some (u, h1) \<longrightarrow>
      ParsePrototype_args f (Suc n) A h =
        (if u = tok_identifier then ParsePrototype_args f n (A @ [IdentifierStr h1]) h1
         else Some (A, h1))) \<and>
    (ParsePrototype_args f n A h = Some (A', h') \<longrightarrow>
      CurTok h' \<noteq> tok_identifier \<and> (\<exists>B. A' = A @ B)) \<and>
    outcome (on_input f m ''def foo(a b) a+b;'' ParseDefinition) =
      Some (Some (FunctionAST (PrototypeAST ''foo'' [''a'', ''b''])
              (BinaryExprAST CHR ''+'' (VariableExprAST ''a'') (VariableExprAST ''b''))),
            ord CHR '';'', [''ready > '']) \<and>
    outcome (on_input main_cpp m ''def foo(a b) a+b'' ParseDefinition) =
      Some (Some (FunctionAST (PrototypeAST ''foo'' [''a'', ''b''])
              (BinaryExprAST CHR ''+'' (VariableExprAST ''a'') (VariableExprAST ''b''))),
            ord CHR '';'', [''ready > ''])"
proof -
  have 1: "outcome (on_input f m ''def foo(a b) a+b;'' ParseDefinition) =
      Some (Some (FunctionAST (PrototypeAST ''foo'' [''a'', ''b''])
              (BinaryExprAST CHR ''+'' (VariableExprAST ''a'') (VariableExprAST ''b''))),
            ord CHR '';'', [''ready > ''])"
    by (rule enough_fuel[where F="\<lambda>n. outcome (on_input f n ''def foo(a b) a+b;'' ParseDefinition)",
          OF _ def_examples_20(1) assms])
       (rule on_input_mono, rule ParseDefinition_mono)
  have 2: "outcome (on_input main_cpp m ''def foo(a b) a+b'' ParseDefinition) =
      Some (Some (FunctionAST (PrototypeAST ''foo'' [''a'', ''b''])
              (BinaryExprAST CHR ''+'' (VariableExprAST ''a'') (VariableExprAST ''b''))),
            ord CHR '';'', [''ready > ''])"
    by (rule enough_fuel[where
          F="\<lambda>n. outcome (on_input main_cpp n ''def foo(a b) a+b'' ParseDefinition)",
          OF _ def_line_main_cpp_20 assms])
       (rule on_input_mono, rule ParseDefinition_mono)
  show ?thesis
    using 1 2 ParsePrototype_no_name[of g f n] ParsePrototype_no_open[of g f n t g1]
      ParsePrototype_no_close[of g f n g1 ArgNames g2]
      ParsePrototype_success[of g f n g1 ArgNames g2 t' g3]
      ParsePrototype_args_step[of f n h u h1 A] ParsePrototype_args_last[of f n A h A' h']
    by blast
qed

theorem ParsePrototype_grammar_witness:
  "ParsePrototype main_cpp 0 (initial []) =
     Some (None, (initial [])\<lparr>stderr := [''LogError: expected function name\<newline>'']\<rparr>) \<and>
   outcome (on_input main_cpp 20 ''def foo(a b) a+b'' ParseDefinition) =
     Some (Some (FunctionAST (PrototypeAST ''foo'' [''a'', ''b''])
             (BinaryExprAST CHR ''+'' (VariableExprAST ''a'') (VariableExprAST ''b''))),
           ord CHR '';'', [''ready > ''])"
proof
  have "CurTok (initial []) \<noteq> tok_identifier"
    by (simp add: initial_def)
  with ParsePrototype_grammar[of 20 "initial []" main_cpp 0, OF order_refl, THEN conjunct1]
  show "ParsePrototype main_cpp 0 (initial []) =
     Some (None, (initial [])\<lparr>stderr := [''LogError: expected function name\<newline>'']\<rparr>)"
    by (simp add: initial_def)
  show "outcome (on_input main_cpp 20 ''def foo(a b) a+b'' ParseDefinition) =
     Some (Some (FunctionAST (PrototypeAST ''foo'' [''a'', ''b''])
             (BinaryExprAST CHR ''+'' (VariableExprAST ''a'') (VariableExprAST ''b''))),
           ord CHR '';'', [''ready > ''])"
    by (rule ParsePrototype_grammar[of 20 _ main_cpp, OF order_refl, THEN conjunct2, THEN conjunct2,
          THEN conjunct2, THEN conjunct2, THEN conjunct2, THEN conjunct2, THEN conjunct2])
qed

section \<open>Lexer\<close>

subsection \<open>Characters\<close>

lemma ord_values:
  "ord CHR ''.'' = 46" "ord CHR ''#'' = 35" "ord CHR ''\<newline>'' = 10" "ord CHR '';'' = 59"
  "ord CHR '' '' = 32" "ord (CHR 0x0D) = 13"
  by (simp_all add: ord_def)

lemma of_char_less_256: "of_char c < (256::int)"
proof -
  have "(of_char c :: int) = int (of_char c)" by (simp add: of_nat_of_char)
  moreover have "(of_char c :: nat) < 256" by simp
  ultimately show ?thesis by linarith
qed

lemma of_char_nonneg: "(0::int) \<le> of_char c"
proof -
  have "(of_char c :: int) = int (of_char c)" by (simp add: of_nat_of_char)
  then show ?thesis by simp
qed

lemma ord_inject: "ord c = ord d \<longleftrightarrow> c = d"
proof
  assume "ord c = ord d"
  moreover have "of_char c < (256::int)" "of_char d < (256::int)" "(0::int) \<le> of_char c" "(0::int) \<le> of_char d"
    by (simp_all add: of_char_less_256 of_char_nonneg)
  ultimately have "(of_char c :: int) = of_char d"
    by (auto simp: ord_def split: if_splits)
  then show "c = d" by simp
qed simp

lemma ord_eq_EOF: "ord c = EOF \<longleftrightarrow> c = CHR 0xFF"
  using ord_inject[of c "CHR 0xFF"] by (simp add: ord_def)

lemma ord_chr: "0 \<le> i \<Longrightarrow> i < 128 \<Longrightarrow> ord (chr i) = i"
  by (simp add: ord_def chr_def)


subsection \<open>Tokens\<close>

lemma gettok_space_not_space: "gettok_space n g = Some g1 \<Longrightarrow> \<not> isspace (LastChar g1)"
proof (induction n arbitrary: g)
  case 0
  then show ?case by simp
next
  case (Suc n)
  show ?case
  proof (cases "isspace (LastChar g)")
    case True
    with Suc.prems have "gettok_space n ((snd (getBufChar g))\<lparr>LastChar := ord (fst (getBufChar g))\<rparr>) = Some g1"
      by (simp add: case_prod_unfold Let_def)
    then show ?thesis by (rule Suc.IH)
  next
    case False
    with Suc.prems show ?thesis by simp
  qed
qed

lemma gettok_space_id: "\<not> isspace (LastChar g) \<Longrightarrow> gettok_space (Suc n) g = Some g"
  by simp

lemma gettok_token:
  "gettok f n g = Some (t, g') \<Longrightarrow> t \<noteq> ord CHR ''.'' \<and> \<not> isspace t \<and> t \<noteq> ord CHR ''#''"
proof (induction n arbitrary: g)
  case 0
  then show ?case by simp
next
  case (Suc n)
  show ?case
  proof (cases "f = main_cpp \<and> LastChar g = ord CHR ''\<newline>''")
    case True
    with Suc.prems show ?thesis by (auto simp: ord_values isspace_def)
  next
    case False
    with Suc.prems obtain g1 where sp: "gettok_space n g = Some g1"
      and rest: "(if isalpha (LastChar g1) then do {
         g2 \<leftarrow> gettok_identifier n (g1\<lparr>IdentifierStr := [chr (LastChar g1)]\<rparr>);
         Some (if IdentifierStr g2 = ''def'' then tok_def
               else if IdentifierStr g2 = ''extern'' then tok_extern
               else tok_identifier, g2)
       }
       else if isdigit (LastChar g1) \<or> LastChar g1 = ord CHR ''.'' then do {
         (NumStr, g2) \<leftarrow> gettok_number n [] g1;
         Some (tok_number, g2\<lparr>NumVal := strtod NumStr\<rparr>)
       }
       else do {
         g2 \<leftarrow> (if LastChar g1 = ord CHR ''#'' then gettok_comment n g1 else Some g1);
         if LastChar g1 = ord CHR ''#'' \<and> LastChar g2 \<noteq> EOF then gettok f n g2
         else if LastChar g2 = EOF then Some (tok_eof, g2)
         else (let ThisChar = LastChar g2; (c, g3) = getBufChar g2
               in Some (ThisChar, g3\<lparr>LastChar := ord c\<rparr>))
       }) = Some (t, g')"
      by (subst (asm) gettok.simps) (auto simp: bind_eq_Some_iff simp del: gettok.simps)
    note ns = gettok_space_not_space[OF sp]
    show ?thesis
    proof (cases "isalpha (LastChar g1)")
      case True
      with rest show ?thesis
        by (auto simp: bind_eq_Some_iff ord_values isspace_def split: if_splits)
    next
      case na: False
      show ?thesis
      proof (cases "isdigit (LastChar g1) \<or> LastChar g1 = ord CHR ''.''")
        case True
        with na rest show ?thesis
          by (auto simp: bind_eq_Some_iff ord_values isspace_def split: if_splits prod.splits)
      next
        case nd: False
        show ?thesis
        proof (cases "LastChar g1 = ord CHR ''#''")
          case True
          with na nd rest obtain g2 where c: "gettok_comment n g1 = Some g2"
            and r2: "(if LastChar g2 \<noteq> EOF then gettok f n g2 else Some (tok_eof, g2)) = Some (t, g')"
            by (auto simp: bind_eq_Some_iff split: if_splits)
          show ?thesis
          proof (cases "LastChar g2 = EOF")
            case True
            with r2 show ?thesis by (auto simp: ord_values isspace_def)
          next
            case False
            with r2 have "gettok f n g2 = Some (t, g')" by simp
            then show ?thesis by (rule Suc.IH)
          qed
        next
          case False
          with na nd rest ns show ?thesis
            by (auto simp: bind_eq_Some_iff ord_values isspace_def Let_def split: if_splits prod.splits)
        qed
      qed
    qed
  qed
qed


lemma chr_values: "chr 46 = CHR ''.''"
  by (simp add: chr_def char_of_def)

lemma strtod_dot: "strtod ''.'' = 0"
  by (simp add: strtod_def isdigit_def ord_def)

lemma gettok_dot_number:
  assumes "LastChar g = ord CHR ''.''" and "gettok f n g = Some (t, g')"
  shows "t = tok_number"
proof (cases n)
  case 0
  with assms show ?thesis by simp
next
  case (Suc k)
  have ns: "\<not> isspace (LastChar g)" "\<not> isalpha (LastChar g)" "LastChar g \<noteq> ord CHR ''\<newline>''"
    using assms(1) by (simp_all add: ord_values isspace_def isalpha_def)
  from assms(2) Suc ns assms(1) show ?thesis
    by (cases k) (auto simp: bind_eq_Some_iff split: prod.splits simp del: gettok_number.simps)
qed

lemma gettok_lone_dot:
  assumes "LastChar g = ord CHR ''.''" and "getBufChar g = (c, g1)"
    and "\<not> isdigit (ord c)" and "ord c \<noteq> ord CHR ''.''"
  shows "gettok f (Suc (Suc n)) g = Some (tok_number, g1\<lparr>LastChar := ord c, NumVal := 0\<rparr>)"
proof -
  have ns: "\<not> isspace (LastChar g)" "\<not> isalpha (LastChar g)" "LastChar g \<noteq> ord CHR ''\<newline>''"
    using assms(1) by (simp_all add: ord_values isspace_def isalpha_def)
  have num: "gettok_number (Suc n) [] g = Some (''.'', g1\<lparr>LastChar := ord c\<rparr>)"
    using assms by (simp add: ord_values chr_values)
  show ?thesis
    using ns assms(1) num strtod_dot
    by (simp del: gettok_number.simps gettok_space.simps add: gettok_space_id)
qed

lemma lone_dot_3:
  "map_option (\<lambda>(t, g). (t, NumVal g, LastChar g)) (gettok f 3 (initial ''.'')) =
     Some (tok_number, 0, ord CHR ''\<newline>'')"
  by (cases f) (simp_all add: ev eval_nat_numeral)

text \<open>
  C10. \<^verbatim>\<open>gettok\<close> never returns the character \<^verbatim>\<open>.\<close> as a token: when it finds \<^verbatim>\<open>.\<close> as the
  pending character, the token is \<^verbatim>\<open>tok_number\<close>, and when the character after the dot is
  neither a digit nor a dot, the number scanned is the text \<^verbatim>\<open>.\<close>, whose value is 0. On the
  input that consists of a lone \<^verbatim>\<open>.\<close> the first token is the number 0, and the newline that
  ends the line is the pending character afterwards.
\<close>

theorem dot_is_a_number:
  assumes "3 \<le> m"
  shows
   "(gettok f n g = Some (t, g') \<longrightarrow> t \<noteq> ord CHR ''.'') \<and>
    (LastChar g = ord CHR ''.'' \<and> gettok f n g = Some (t, g') \<longrightarrow> t = tok_number) \<and>
    (LastChar g = ord CHR ''.'' \<and> getBufChar g = (c, g1) \<and> \<not> isdigit (ord c) \<and>
     ord c \<noteq> ord CHR ''.'' \<longrightarrow>
       gettok f (Suc (Suc n)) g = Some (tok_number, g1\<lparr>LastChar := ord c, NumVal := 0\<rparr>)) \<and>
    map_option (\<lambda>(t, g). (t, NumVal g, LastChar g)) (gettok f m (initial ''.'')) =
      Some (tok_number, 0, ord CHR ''\<newline>'')"
proof -
  have "map_option (\<lambda>(t, g). (t, NumVal g, LastChar g)) (gettok f m (initial ''.'')) =
      Some (tok_number, 0, ord CHR ''\<newline>'')"
    by (rule enough_fuel[where
          F="\<lambda>n. map_option (\<lambda>(t, g). (t, NumVal g, LastChar g)) (gettok f n (initial ''.''))",
          OF _ lone_dot_3 assms])
       (intro fuel_le_intros gettok_mono)
  then show ?thesis
    using gettok_token[of f n g t g'] gettok_dot_number[of g f n t g']
      gettok_lone_dot[of g c g1 f n]
    by blast
qed

theorem dot_is_a_number_witness:
  "map_option fst (gettok main_cpp 2 ((initial [])\<lparr>LastChar := ord CHR ''.''\<rparr>)) =
     Some tok_number \<and>
   map_option (\<lambda>(t, g). (t, NumVal g, LastChar g)) (gettok jit_cpp 3 (initial ''.'')) =
     Some (tok_number, 0, ord CHR ''\<newline>'')"
proof
  have "getBufChar ((initial [])\<lparr>LastChar := ord CHR ''.''\<rparr>) =
      (CHR ''\<newline>'', snd (getBufChar ((initial [])\<lparr>LastChar := ord CHR ''.''\<rparr>)))"
    by (simp add: ev)
  moreover have "LastChar ((initial [])\<lparr>LastChar := ord CHR ''.''\<rparr>) = ord CHR ''.''"
    "\<not> isdigit (ord CHR ''\<newline>'')" "ord CHR ''\<newline>'' \<noteq> ord CHR ''.''"
    by (simp_all add: ev)
  ultimately show
    "map_option fst (gettok main_cpp 2 ((initial [])\<lparr>LastChar := ord CHR ''.''\<rparr>)) =
       Some tok_number"
    using dot_is_a_number[where m=3 and f=main_cpp and n=0
        and g="(initial [])\<lparr>LastChar := ord CHR ''.''\<rparr>" and c="CHR ''\<newline>''"
        and ?g1.0="snd (getBufChar ((initial [])\<lparr>LastChar := ord CHR ''.''\<rparr>))",
        OF order_refl, THEN conjunct2, THEN conjunct2, THEN conjunct1]
    by (simp add: eval_nat_numeral del: gettok.simps)
  show "map_option (\<lambda>(t, g). (t, NumVal g, LastChar g)) (gettok jit_cpp 3 (initial ''.'')) =
     Some (tok_number, 0, ord CHR ''\<newline>'')"
    by (rule dot_is_a_number[of 3 jit_cpp, OF order_refl, THEN conjunct2, THEN conjunct2,
          THEN conjunct2])
qed

subsection \<open>Comments and white space\<close>













subsection \<open>Identifiers\<close>

lemma getBufChar_IdentifierStr: "IdentifierStr (snd (getBufChar g)) = IdentifierStr g"
  by (simp add: getBufChar_def getline_def Let_def split: list.split)

lemma gettok_identifier_unfold:
  "getBufChar g = (c, g1) \<Longrightarrow>
   gettok_identifier (Suc n) g =
     (if isalnum (ord c)
      then gettok_identifier n (g1\<lparr>LastChar := ord c, IdentifierStr := IdentifierStr g1 @ [chr (ord c)]\<rparr>)
      else Some (g1\<lparr>LastChar := ord c\<rparr>))"
  by (simp add: Let_def)

lemma gettok_identifier_alnum:
  "gettok_identifier n g = Some g' \<Longrightarrow>
     \<exists>cs. IdentifierStr g' = IdentifierStr g @ cs \<and> list_all (\<lambda>c. isalnum (ord c)) cs"
proof (induction n arbitrary: g)
  case 0
  then show ?case by simp
next
  case (Suc n)
  obtain c g1 where gb: "getBufChar g = (c, g1)" by (cases "getBufChar g")
  have id1: "IdentifierStr g1 = IdentifierStr g"
    using getBufChar_IdentifierStr[of g] gb by simp
  note unf = gettok_identifier_unfold[OF gb, of n]
  show ?case
  proof (cases "isalnum (ord c)")
    case True
    with Suc.prems unf have
      "gettok_identifier n (g1\<lparr>LastChar := ord c, IdentifierStr := IdentifierStr g1 @ [chr (ord c)]\<rparr>) = Some g'"
      by (simp del: gettok_identifier.simps)
    from Suc.IH[OF this] obtain cs where
      cs: "IdentifierStr g' = (IdentifierStr g1 @ [chr (ord c)]) @ cs" "list_all (\<lambda>c. isalnum (ord c)) cs"
      by auto
    have "ord (chr (ord c)) = ord c"
      using True by (intro ord_chr) (auto simp: isalnum_def isalpha_def isdigit_def)
    with True have "list_all (\<lambda>c. isalnum (ord c)) (chr (ord c) # cs)"
      using cs(2) by simp
    moreover have "IdentifierStr g' = IdentifierStr g @ (chr (ord c) # cs)"
      using cs(1) id1 by simp
    ultimately show ?thesis by blast
  next
    case False
    with Suc.prems unf have "g' = g1\<lparr>LastChar := ord c\<rparr>"
      by (simp del: gettok_identifier.simps)
    with id1 have "IdentifierStr g' = IdentifierStr g @ []" by simp
    moreover have "list_all (\<lambda>c. isalnum (ord c)) []" by simp
    ultimately show ?thesis by blast
  qed
qed

lemma gettok_identifier_is_identifier:
  assumes "isalpha (LastChar g)"
    and "gettok_identifier n (g\<lparr>IdentifierStr := [chr (LastChar g)]\<rparr>) = Some g'"
  shows "is_identifier (IdentifierStr g')"
proof -
  from gettok_identifier_alnum[OF assms(2)] obtain cs where
    "IdentifierStr g' = chr (LastChar g) # cs" "list_all (\<lambda>c. isalnum (ord c)) cs" by auto
  moreover have "ord (chr (LastChar g)) = LastChar g"
    using assms(1) by (intro ord_chr) (auto simp: isalpha_def)
  ultimately show ?thesis using assms(1) by (simp add: is_identifier_def)
qed

lemma anonymous_names: "\<not> is_identifier []" "\<not> is_identifier ''__anon_expr''"
  by (simp_all add: is_identifier_def isalpha_def ord_def)

section \<open>Top-level expressions\<close>

text \<open>
  C8. \<^verbatim>\<open>ParseTopLevelExpr\<close> returns a function exactly when \<^verbatim>\<open>ParseExpression\<close> returns an
  expression, the body; the prototype of the function has no parameters and the name \<^verbatim>\<open>""\<close>
  in \<^verbatim>\<open>main.cpp\<close>, \<^verbatim>\<open>"__anon_expr"\<close> in the other build. Neither name is an identifier, and the
  text of every identifier that \<^verbatim>\<open>gettok\<close> scans is one: no identifier of the input is the
  name of the anonymous function.
\<close>

theorem ParseTopLevelExpr_anonymous:
  "(ParseExpression f n g = Some (Some E, g') \<longrightarrow>
      ParseTopLevelExpr f n g =
        Some (Some (FunctionAST
          (PrototypeAST (case f of main_cpp \<Rightarrow> [] | jit_cpp \<Rightarrow> ''__anon_expr'') []) E), g')) \<and>
   (ParseTopLevelExpr f n g = Some (Some (FunctionAST (PrototypeAST Name Args) E), g') \<longrightarrow>
      Args = [] \<and> Name = (case f of main_cpp \<Rightarrow> [] | jit_cpp \<Rightarrow> ''__anon_expr'') \<and>
      \<not> is_identifier Name \<and> ParseExpression f n g = Some (Some E, g')) \<and>
   (isalpha (LastChar h) \<and>
    gettok_identifier k (h\<lparr>IdentifierStr := [chr (LastChar h)]\<rparr>) = Some h' \<longrightarrow>
      is_identifier (IdentifierStr h') \<and>
      IdentifierStr h' \<noteq> (case f of main_cpp \<Rightarrow> [] | jit_cpp \<Rightarrow> ''__anon_expr''))"
proof -
  have a: "\<not> is_identifier (case f of main_cpp \<Rightarrow> [] | jit_cpp \<Rightarrow> ''__anon_expr'')"
    using anonymous_names by (cases f) simp_all
  have 1: "ParseExpression f n g = Some (Some E, g') \<longrightarrow>
      ParseTopLevelExpr f n g =
        Some (Some (FunctionAST
          (PrototypeAST (case f of main_cpp \<Rightarrow> [] | jit_cpp \<Rightarrow> ''__anon_expr'') []) E), g')"
    by (simp add: ParseTopLevelExpr_def)
  have 2: "ParseTopLevelExpr f n g = Some (Some (FunctionAST (PrototypeAST Name Args) E), g') \<longrightarrow>
      Args = [] \<and> Name = (case f of main_cpp \<Rightarrow> [] | jit_cpp \<Rightarrow> ''__anon_expr'') \<and>
      \<not> is_identifier Name \<and> ParseExpression f n g = Some (Some E, g')"
    using a
    by (auto simp: ParseTopLevelExpr_def bind_eq_Some_iff split: option.splits)
  have 3: "isalpha (LastChar h) \<and>
    gettok_identifier k (h\<lparr>IdentifierStr := [chr (LastChar h)]\<rparr>) = Some h' \<longrightarrow>
      is_identifier (IdentifierStr h') \<and>
      IdentifierStr h' \<noteq> (case f of main_cpp \<Rightarrow> [] | jit_cpp \<Rightarrow> ''__anon_expr'')"
    using a gettok_identifier_is_identifier[of h k h'] by auto
  from 1 2 3 show ?thesis by (intro conjI)
qed

lemma top_level_example_20:
  "outcome (on_input main_cpp 20 ''x+1;'' ParseTopLevelExpr) =
     Some (Some (FunctionAST (PrototypeAST [] [])
             (BinaryExprAST CHR ''+'' (VariableExprAST ''x'') (NumberExprAST 1))),
           ord CHR '';'', [''ready > ''])"
  "outcome (on_input jit_cpp 20 ''x+1;'' ParseTopLevelExpr) =
     Some (Some (FunctionAST (PrototypeAST ''__anon_expr'' [])
             (BinaryExprAST CHR ''+'' (VariableExprAST ''x'') (NumberExprAST 1))),
           ord CHR '';'', [''ready > ''])"
  "outcome (on_input f 20 ''x+1;'' ParseExpression) =
     Some (Some (BinaryExprAST CHR ''+'' (VariableExprAST ''x'') (NumberExprAST 1)),
           ord CHR '';'', [''ready > ''])"
  by (cases f; simp add: ev eval_nat_numeral ParseTopLevelExpr_def)+

theorem ParseTopLevelExpr_anonymous_witness:
  "outcome (on_input jit_cpp 20 ''x+1;'' ParseTopLevelExpr) =
     Some (Some (FunctionAST (PrototypeAST ''__anon_expr'' [])
             (BinaryExprAST CHR ''+'' (VariableExprAST ''x'') (NumberExprAST 1))),
           ord CHR '';'', [''ready > '']) \<and>
   (is_identifier (IdentifierStr
      ((initial [])\<lparr>Buf := ''ab;\<newline>'', Index := 3, LastChar := ord CHR '';'',
         IdentifierStr := ''ab''\<rparr>)) \<and>
    IdentifierStr
      ((initial [])\<lparr>Buf := ''ab;\<newline>'', Index := 3, LastChar := ord CHR '';'',
         IdentifierStr := ''ab''\<rparr>) \<noteq> ''__anon_expr'')"
proof
  from top_level_example_20(3)[of jit_cpp] obtain G g' where
    G: "primed jit_cpp 20 ''x+1;'' = Some G"
    and P: "ParseExpression jit_cpp 20 G =
      Some (Some (BinaryExprAST CHR ''+'' (VariableExprAST ''x'') (NumberExprAST 1)), g')"
    and g': "CurTok g' = ord CHR '';''" "stderr g' = [''ready > '']"
    by (auto simp: outcome_def on_input_def bind_eq_Some_iff)
  from ParseTopLevelExpr_anonymous[where f=jit_cpp and n=20 and g=G and g'=g'
      and E="BinaryExprAST CHR ''+'' (VariableExprAST ''x'') (NumberExprAST 1)",
      THEN conjunct1] P
  have "ParseTopLevelExpr jit_cpp 20 G =
      Some (Some (FunctionAST (PrototypeAST ''__anon_expr'' [])
        (BinaryExprAST CHR ''+'' (VariableExprAST ''x'') (NumberExprAST 1))), g')"
    by simp
  with G g' show "outcome (on_input jit_cpp 20 ''x+1;'' ParseTopLevelExpr) =
     Some (Some (FunctionAST (PrototypeAST ''__anon_expr'' [])
             (BinaryExprAST CHR ''+'' (VariableExprAST ''x'') (NumberExprAST 1))),
           ord CHR '';'', [''ready > ''])"
    by (simp add: outcome_def on_input_def)
  let ?h = "(initial [])\<lparr>Buf := ''ab;\<newline>'', Index := 1, LastChar := ord CHR ''a''\<rparr>"
  let ?h' = "(initial [])\<lparr>Buf := ''ab;\<newline>'', Index := 3, LastChar := ord CHR '';'',
    IdentifierStr := ''ab''\<rparr>"
  have "isalpha (LastChar ?h) \<and>
    gettok_identifier 3 (?h\<lparr>IdentifierStr := [chr (LastChar ?h)]\<rparr>) = Some ?h'"
    by (simp add: ev eval_nat_numeral)
  with ParseTopLevelExpr_anonymous[where f=jit_cpp and h="?h" and k=3 and h'="?h'",
      THEN conjunct2, THEN conjunct2]
  show "is_identifier (IdentifierStr ?h') \<and> IdentifierStr ?h' \<noteq> ''__anon_expr''"
    by simp
qed

section \<open>The driver and the end of the input\<close>

subsection \<open>No state free of \<^verbatim>\<open>EOF\<close> leads to one that is not\<close>

lemma getline_clean:
  "CHR 0xFF \<notin> set (cin g) \<Longrightarrow> CHR 0xFF \<notin> set (Buf g) \<Longrightarrow>
     CHR 0xFF \<notin> set (cin (getline g)) \<and> CHR 0xFF \<notin> set (Buf (getline g))"
  by (auto simp: getline_def Let_def split: list.splits dest: set_takeWhileD set_dropWhileD
      intro: set_dropWhileD[of _ "\<lambda>c. c \<noteq> CHR ''\<newline>''" "cin g"])

lemma getline_frame:
  "LastChar (getline g) = LastChar g" "CurTok (getline g) = CurTok g"
  "Index (getline g) = Index g"
  by (simp_all add: getline_def Let_def split: list.splits)

lemma getBufChar_never_eof:
  assumes "never_eof g"
  shows "fst (getBufChar g) \<noteq> CHR 0xFF" and "never_eof (snd (getBufChar g))"
proof -
  define g0 where "g0 = getline (g\<lparr>stderr := stderr g @ [''ready > '']\<rparr>)"
  define g1 where
    "g1 = (if length (Buf g) \<le> Index g then g0\<lparr>Buf := Buf g0 @ ''\<newline>'', Index := 0\<rparr> else g)"
  have gb: "getBufChar g =
      (if Index g1 < length (Buf g1) then Buf g1 ! Index g1 else CHR 0x00,
       g1\<lparr>Index := Index g1 + 1\<rparr>)"
    by (simp add: getBufChar_def g1_def g0_def Let_def)
  have "CHR 0xFF \<notin> set (cin (g\<lparr>stderr := stderr g @ [''ready > '']\<rparr>))"
    "CHR 0xFF \<notin> set (Buf (g\<lparr>stderr := stderr g @ [''ready > '']\<rparr>))"
    using assms by (simp_all add: never_eof_def)
  from getline_clean[OF this] have c0: "CHR 0xFF \<notin> set (cin g0)" "CHR 0xFF \<notin> set (Buf g0)"
    by (simp_all add: g0_def)
  have f0: "LastChar g0 = LastChar g" "CurTok g0 = CurTok g"
    by (simp_all add: g0_def getline_frame)
  have n1: "never_eof g1"
    using assms c0 f0 by (simp add: g1_def never_eof_def)
  then have b1: "CHR 0xFF \<notin> set (Buf g1)" by (simp add: never_eof_def)
  show "fst (getBufChar g) \<noteq> CHR 0xFF"
  proof (cases "Index g1 < length (Buf g1)")
    case True
    then have "Buf g1 ! Index g1 \<in> set (Buf g1)" by (rule nth_mem)
    moreover have "fst (getBufChar g) = Buf g1 ! Index g1" using True by (simp add: gb)
    ultimately show ?thesis using b1 by metis
  next
    case False
    then show ?thesis by (simp add: gb)
  qed
  show "never_eof (snd (getBufChar g))"
    using n1 by (simp add: gb never_eof_def)
qed

lemma never_eof_LastChar:
  "never_eof g \<Longrightarrow> c \<noteq> CHR 0xFF \<Longrightarrow> never_eof (g\<lparr>LastChar := ord c\<rparr>)"
  by (simp add: never_eof_def ord_eq_EOF)

lemma next_char_never_eof:
  "never_eof g \<Longrightarrow>
    never_eof ((snd (getBufChar g))\<lparr>LastChar := ord (fst (getBufChar g))\<rparr>)"
  by (intro never_eof_LastChar getBufChar_never_eof)

lemma never_eof_frame:
  "never_eof (g\<lparr>IdentifierStr := s\<rparr>) = never_eof g"
  "never_eof (g\<lparr>NumVal := v\<rparr>) = never_eof g"
  "never_eof (g\<lparr>stderr := e\<rparr>) = never_eof g"
  "never_eof (g\<lparr>BinopPrecedence := b\<rparr>) = never_eof g"
  by (simp_all add: never_eof_def)

lemma gettok_space_never_eof:
  "gettok_space n g = Some g' \<Longrightarrow> never_eof g \<Longrightarrow> never_eof g'"
proof (induction n arbitrary: g)
  case 0
  then show ?case by simp
next
  case (Suc n)
  show ?case
  proof (cases "isspace (LastChar g)")
    case True
    with Suc.prems(1) have
      "gettok_space n ((snd (getBufChar g))\<lparr>LastChar := ord (fst (getBufChar g))\<rparr>) = Some g'"
      by (simp add: case_prod_unfold Let_def)
    then show ?thesis using next_char_never_eof[OF Suc.prems(2)] by (rule Suc.IH)
  next
    case False
    with Suc.prems show ?thesis by simp
  qed
qed

lemma gettok_identifier_never_eof:
  "gettok_identifier n g = Some g' \<Longrightarrow> never_eof g \<Longrightarrow> never_eof g'"
proof (induction n arbitrary: g)
  case 0
  then show ?case by simp
next
  case (Suc n)
  let ?g2 = "(snd (getBufChar g))\<lparr>LastChar := ord (fst (getBufChar g))\<rparr>"
  have g2: "never_eof ?g2" by (rule next_char_never_eof[OF Suc.prems(2)])
  show ?case
  proof (cases "isalnum (LastChar ?g2)")
    case True
    with Suc.prems(1) have
      "gettok_identifier n (?g2\<lparr>IdentifierStr := IdentifierStr ?g2 @ [chr (LastChar ?g2)]\<rparr>) = Some g'"
      by (simp add: case_prod_unfold Let_def)
    from Suc.IH[OF this] g2 show ?thesis by (simp add: never_eof_frame)
  next
    case False
    with Suc.prems(1) have "g' = ?g2" by (simp add: case_prod_unfold Let_def)
    with g2 show ?thesis by simp
  qed
qed

lemma gettok_number_never_eof:
  "gettok_number n s g = Some (s', g') \<Longrightarrow> never_eof g \<Longrightarrow> never_eof g'"
proof (induction n arbitrary: g s)
  case 0
  then show ?case by simp
next
  case (Suc n)
  let ?g2 = "(snd (getBufChar g))\<lparr>LastChar := ord (fst (getBufChar g))\<rparr>"
  have g2: "never_eof ?g2" by (rule next_char_never_eof[OF Suc.prems(2)])
  show ?case
  proof (cases "isdigit (LastChar ?g2) \<or> LastChar ?g2 = ord CHR ''.''")
    case True
    with Suc.prems(1) have "gettok_number n (s @ [chr (LastChar g)]) ?g2 = Some (s', g')"
      by (simp add: case_prod_unfold Let_def)
    then show ?thesis using g2 by (rule Suc.IH)
  next
    case False
    with Suc.prems(1) have "g' = ?g2" by (simp add: case_prod_unfold Let_def)
    with g2 show ?thesis by simp
  qed
qed

lemma gettok_comment_never_eof:
  "gettok_comment n g = Some g' \<Longrightarrow> never_eof g \<Longrightarrow> never_eof g'"
proof (induction n arbitrary: g)
  case 0
  then show ?case by simp
next
  case (Suc n)
  let ?g2 = "(snd (getBufChar g))\<lparr>LastChar := ord (fst (getBufChar g))\<rparr>"
  have g2: "never_eof ?g2" by (rule next_char_never_eof[OF Suc.prems(2)])
  show ?case
  proof (cases "LastChar ?g2 \<noteq> EOF \<and> LastChar ?g2 \<noteq> ord CHR ''\<newline>'' \<and> LastChar ?g2 \<noteq> ord (CHR 0x0D)")
    case True
    with Suc.prems(1) have "gettok_comment n ?g2 = Some g'"
      by (simp add: case_prod_unfold Let_def)
    then show ?thesis using g2 by (rule Suc.IH)
  next
    case False
    with Suc.prems(1) have "g' = ?g2" by (auto simp: case_prod_unfold Let_def)
    with g2 show ?thesis by simp
  qed
qed

lemma gettok_never_eof:
  "gettok f n g = Some (t, g') \<Longrightarrow> never_eof g \<Longrightarrow> never_eof g' \<and> t \<noteq> tok_eof"
proof (induction n arbitrary: g)
  case 0
  then show ?case by simp
next
  case (Suc n)
  show ?case
  proof (cases "f = main_cpp \<and> LastChar g = ord CHR ''\<newline>''")
    case True
    with Suc.prems show ?thesis by (auto simp: ord_values never_eof_def)
  next
    case False
    with Suc.prems(1) obtain g1 where sp: "gettok_space n g = Some g1"
      and rest: "(if isalpha (LastChar g1) then do {
         g2 \<leftarrow> gettok_identifier n (g1\<lparr>IdentifierStr := [chr (LastChar g1)]\<rparr>);
         Some (if IdentifierStr g2 = ''def'' then tok_def
               else if IdentifierStr g2 = ''extern'' then tok_extern
               else tok_identifier, g2)
       }
       else if isdigit (LastChar g1) \<or> LastChar g1 = ord CHR ''.'' then do {
         (NumStr, g2) \<leftarrow> gettok_number n [] g1;
         Some (tok_number, g2\<lparr>NumVal := strtod NumStr\<rparr>)
       }
       else do {
         g2 \<leftarrow> (if LastChar g1 = ord CHR ''#'' then gettok_comment n g1 else Some g1);
         if LastChar g1 = ord CHR ''#'' \<and> LastChar g2 \<noteq> EOF then gettok f n g2
         else if LastChar g2 = EOF then Some (tok_eof, g2)
         else (let ThisChar = LastChar g2; (c, g3) = getBufChar g2
               in Some (ThisChar, g3\<lparr>LastChar := ord c\<rparr>))
       }) = Some (t, g')"
      by (subst (asm) gettok.simps) (auto simp: bind_eq_Some_iff simp del: gettok.simps)
    note n1 = gettok_space_never_eof[OF sp Suc.prems(2)]
    show ?thesis
    proof (cases "isalpha (LastChar g1)")
      case True
      with rest obtain g2 where
        "gettok_identifier n (g1\<lparr>IdentifierStr := [chr (LastChar g1)]\<rparr>) = Some g2"
        and "g' = g2" and "t \<noteq> tok_eof"
        by (auto simp: bind_eq_Some_iff split: if_splits)
      with gettok_identifier_never_eof[of n "g1\<lparr>IdentifierStr := [chr (LastChar g1)]\<rparr>" g2] n1
      show ?thesis by (simp add: never_eof_frame)
    next
      case na: False
      show ?thesis
      proof (cases "isdigit (LastChar g1) \<or> LastChar g1 = ord CHR ''.''")
        case True
        with na rest obtain s g2 where "gettok_number n [] g1 = Some (s, g2)"
          and "g' = g2\<lparr>NumVal := strtod s\<rparr>" and "t = tok_number"
          by (auto simp: bind_eq_Some_iff split: prod.splits)
        with gettok_number_never_eof[of n "[]" g1 s g2] n1
        show ?thesis by (simp add: never_eof_frame)
      next
        case nd: False
        show ?thesis
        proof (cases "LastChar g1 = ord CHR ''#''")
          case True
          with na nd rest obtain g2 where c: "gettok_comment n g1 = Some g2"
            and r2: "(if LastChar g2 \<noteq> EOF then gettok f n g2 else Some (tok_eof, g2)) = Some (t, g')"
            by (auto simp: bind_eq_Some_iff split: if_splits)
          note n2 = gettok_comment_never_eof[OF c n1]
          then have "LastChar g2 \<noteq> EOF" by (simp add: never_eof_def)
          with r2 have "gettok f n g2 = Some (t, g')" by simp
          then show ?thesis using n2 by (rule Suc.IH)
        next
          case False
          from n1 have le: "LastChar g1 \<noteq> EOF" by (simp add: never_eof_def)
          from False na nd rest le have
            "t = LastChar g1" "g' = (snd (getBufChar g1))\<lparr>LastChar := ord (fst (getBufChar g1))\<rparr>"
            by (auto simp: Let_def case_prod_unfold)
          with le next_char_never_eof[OF n1] show ?thesis by simp
        qed
      qed
    qed
  qed
qed

lemma keeps_getNextToken: "never_eof g \<Longrightarrow> keeps (getNextToken f n g)"
  by (auto simp: keeps_def getNextToken_def bind_eq_Some_iff never_eof_def
      dest!: gettok_never_eof)

lemma keeps_None: "keeps None"
  by (simp add: keeps_def)

lemma keeps_Some: "never_eof (snd x) \<Longrightarrow> keeps (Some x)"
  by (simp add: keeps_def)

lemma keeps_bind:
  "keeps m \<Longrightarrow> (\<And>x. never_eof (snd x) \<Longrightarrow> keeps (k x)) \<Longrightarrow> keeps (m \<bind> k)"
  by (cases m) (auto simp: keeps_def)

lemma keeps_if: "(c \<Longrightarrow> keeps a) \<Longrightarrow> (\<not> c \<Longrightarrow> keeps b) \<Longrightarrow> keeps (if c then a else b)"
  by simp

lemma keeps_option: "keeps a \<Longrightarrow> (\<And>y. keeps (F y)) \<Longrightarrow> keeps (case_option a F x)"
  by (cases x) simp_all

lemma never_eof_GetTokPrecedence: "never_eof g \<Longrightarrow> never_eof (snd (GetTokPrecedence g))"
  by (simp add: GetTokPrecedence_def Let_def never_eof_def split: option.splits)

lemma never_eof_LogError: "never_eof g \<Longrightarrow> never_eof (snd (LogError s g))"
  by (simp add: LogError_def never_eof_def)

lemma never_eof_LogErrorP: "never_eof g \<Longrightarrow> never_eof (snd (LogErrorP s g))"
  by (simp add: LogErrorP_def LogError_def never_eof_def)

lemmas keeps_intros = keeps_None keeps_bind keeps_if keeps_option keeps_Some keeps_getNextToken

lemma keeps_ParseNumberExpr: "never_eof g \<Longrightarrow> keeps (ParseNumberExpr f n g)"
  unfolding ParseNumberExpr_def Let_def case_prod_unfold
  by (intro keeps_intros) simp_all

lemma keeps_Parse:
  "(\<forall>g. never_eof g \<longrightarrow> keeps (ParseParenExpr f n g)) \<and>
   (\<forall>g. never_eof g \<longrightarrow> keeps (ParseIdentifierExpr f n g)) \<and>
   (\<forall>g A. never_eof g \<longrightarrow> keeps (ParseIdentifierExpr_args f n A g)) \<and>
   (\<forall>g. never_eof g \<longrightarrow> keeps (ParsePrimary f n g)) \<and>
   (\<forall>g. never_eof g \<longrightarrow> keeps (ParseExpression f n g)) \<and>
   (\<forall>g p L. never_eof g \<longrightarrow> keeps (ParseBinOpRHS f n p L g))"
proof (induction n)
  case 0
  show ?case by (simp add: keeps_None)
next
  case (Suc n)
  note IH = Suc.IH[THEN conjunct1, rule_format]
    Suc.IH[THEN conjunct2, THEN conjunct1, rule_format]
    Suc.IH[THEN conjunct2, THEN conjunct2, THEN conjunct1, rule_format]
    Suc.IH[THEN conjunct2, THEN conjunct2, THEN conjunct2, THEN conjunct1, rule_format]
    Suc.IH[THEN conjunct2, THEN conjunct2, THEN conjunct2, THEN conjunct2, THEN conjunct1,
      rule_format]
    Suc.IH[THEN conjunct2, THEN conjunct2, THEN conjunct2, THEN conjunct2, THEN conjunct2,
      rule_format]
  note rules = keeps_intros IH keeps_ParseNumberExpr
  note side = never_eof_GetTokPrecedence never_eof_LogError
  have 1: "keeps (ParseParenExpr f (Suc n) g)" if "never_eof g" for g
    unfolding ParseParenExpr.simps(2)[where n=n] Let_def case_prod_unfold
    using that by (intro rules) (simp_all add: side)
  have 2: "keeps (ParseIdentifierExpr f (Suc n) g)" if "never_eof g" for g
    unfolding ParseIdentifierExpr.simps(2)[where n=n] Let_def case_prod_unfold
    using that by (intro rules) (simp_all add: side)
  have 3: "keeps (ParseIdentifierExpr_args f (Suc n) A g)" if "never_eof g" for g A
    unfolding ParseIdentifierExpr_args.simps(2)[where n=n] Let_def case_prod_unfold
    using that by (intro rules) (simp_all add: side)
  have 4: "keeps (ParsePrimary f (Suc n) g)" if "never_eof g" for g
    unfolding ParsePrimary.simps(2)[where n=n] Let_def case_prod_unfold
    using that by (intro rules) (simp_all add: side)
  have 5: "keeps (ParseExpression f (Suc n) g)" if "never_eof g" for g
    unfolding ParseExpression.simps(2)[where n=n] Let_def case_prod_unfold
    using that by (intro rules) (simp_all add: side)
  have 6: "keeps (ParseBinOpRHS f (Suc n) p L g)" if "never_eof g" for g p L
    unfolding ParseBinOpRHS.simps(2)[where n=n] Let_def case_prod_unfold
    using that by (intro rules) (simp_all add: side)
  show ?case using 1 2 3 4 5 6 by blast
qed

lemma keeps_ParseExpression: "never_eof g \<Longrightarrow> keeps (ParseExpression f n g)"
  using keeps_Parse[of f n] by blast

lemma keeps_ParsePrototype_args:
  "never_eof g \<Longrightarrow> keeps (ParsePrototype_args f n A g)"
proof (induction n arbitrary: g A)
  case 0
  show ?case by (simp add: keeps_None)
next
  case (Suc n)
  show ?case
    unfolding ParsePrototype_args.simps(2)[where n=n] case_prod_unfold
    using Suc.prems by (intro keeps_intros Suc.IH) simp_all
qed

lemma keeps_ParsePrototype: "never_eof g \<Longrightarrow> keeps (ParsePrototype f n g)"
  unfolding ParsePrototype_def Let_def case_prod_unfold
  by (intro keeps_intros keeps_ParsePrototype_args) (simp_all add: never_eof_LogErrorP)

lemma keeps_ParseDefinition: "never_eof g \<Longrightarrow> keeps (ParseDefinition f n g)"
  unfolding ParseDefinition_def Let_def case_prod_unfold
  by (intro keeps_intros keeps_ParsePrototype keeps_ParseExpression) simp_all

lemma keeps_ParseExtern: "never_eof g \<Longrightarrow> keeps (ParseExtern f n g)"
  unfolding ParseExtern_def Let_def case_prod_unfold
  by (intro keeps_intros keeps_ParsePrototype) simp_all

lemma keeps_ParseTopLevelExpr: "never_eof g \<Longrightarrow> keeps (ParseTopLevelExpr f n g)"
  unfolding ParseTopLevelExpr_def Let_def case_prod_unfold
  by (intro keeps_intros keeps_ParseExpression) simp_all

lemma handler_never_eof:
  assumes "keeps m"
    and "(m \<bind> (\<lambda>(r, g1). if r \<noteq> None then Some (g1\<lparr>stderr := stderr g1 @ [msg]\<rparr>)
            else getNextToken main_cpp n g1 \<bind> (\<lambda>(_, g2). Some g2))) = Some g'"
  shows "never_eof g'"
proof -
  from assms(2) obtain r g1 where m: "m = Some (r, g1)"
    and rest: "(if r \<noteq> None then Some (g1\<lparr>stderr := stderr g1 @ [msg]\<rparr>)
            else getNextToken main_cpp n g1 \<bind> (\<lambda>(_, g2). Some g2)) = Some g'"
    by (auto simp: bind_eq_Some_iff)
  from assms(1) m have n1: "never_eof g1" by (simp add: keeps_def)
  show ?thesis
  proof (cases "r = None")
    case True
    with rest obtain t where "getNextToken main_cpp n g1 = Some (t, g')"
      by (auto simp: bind_eq_Some_iff)
    with keeps_getNextToken[OF n1, of main_cpp n] show ?thesis by (simp add: keeps_def)
  next
    case False
    with rest n1 show ?thesis by (auto simp: never_eof_frame)
  qed
qed

lemma HandleDefinition_never_eof:
  "never_eof g \<Longrightarrow> HandleDefinition n g = Some g' \<Longrightarrow> never_eof g'"
  unfolding HandleDefinition_def by (rule handler_never_eof[OF keeps_ParseDefinition])

lemma HandleExtern_never_eof:
  "never_eof g \<Longrightarrow> HandleExtern n g = Some g' \<Longrightarrow> never_eof g'"
  unfolding HandleExtern_def by (rule handler_never_eof[OF keeps_ParseExtern])

lemma HandleTopLevelExpression_never_eof:
  "never_eof g \<Longrightarrow> HandleTopLevelExpression n g = Some g' \<Longrightarrow> never_eof g'"
  unfolding HandleTopLevelExpression_def by (rule handler_never_eof[OF keeps_ParseTopLevelExpr])

lemma MainLoop_never_returns: "never_eof g \<Longrightarrow> MainLoop n g = None"
proof (induction n arbitrary: g)
  case 0
  show ?case by simp
next
  case (Suc n)
  from Suc.prems have ne: "CurTok g \<noteq> tok_eof" by (simp add: never_eof_def)
  have step: "(m \<bind> MainLoop n) = None" if "\<And>g1. m = Some g1 \<Longrightarrow> never_eof g1" for m
    using that Suc.IH by (cases m) simp_all
  consider (semi) "CurTok g = ord CHR '';''"
    | (def) "CurTok g \<noteq> ord CHR '';''" "CurTok g = tok_def"
    | (ext) "CurTok g \<noteq> ord CHR '';''" "CurTok g \<noteq> tok_def" "CurTok g = tok_extern"
    | (top) "CurTok g \<noteq> ord CHR '';''" "CurTok g \<noteq> tok_def" "CurTok g \<noteq> tok_extern"
    by blast
  then show ?case
  proof cases
    case semi
    have "(getNextToken main_cpp n g \<bind> (\<lambda>(_, g1). MainLoop n g1)) = None"
    proof (cases "getNextToken main_cpp n g")
      case None
      then show ?thesis by simp
    next
      case (Some x)
      with keeps_getNextToken[OF Suc.prems, of main_cpp n] have "never_eof (snd x)"
        by (simp add: keeps_def)
      then have "MainLoop n (snd x) = None" by (rule Suc.IH)
      with Some show ?thesis by (simp add: case_prod_unfold)
    qed
    with ne semi show ?thesis by simp
  next
    case def
    have "(HandleDefinition n g \<bind> MainLoop n) = None"
      by (rule step) (rule HandleDefinition_never_eof[OF Suc.prems])
    with ne def show ?thesis by simp
  next
    case ext
    have "(HandleExtern n g \<bind> MainLoop n) = None"
      by (rule step) (rule HandleExtern_never_eof[OF Suc.prems])
    with ne ext show ?thesis by simp
  next
    case top
    have "(HandleTopLevelExpression n g \<bind> MainLoop n) = None"
      by (rule step) (rule HandleTopLevelExpression_never_eof[OF Suc.prems])
    with ne top show ?thesis by simp
  qed
qed

lemma MainLoop_returns_at_eof: "MainLoop n g = Some g' \<Longrightarrow> CurTok g' = tok_eof"
proof (induction n arbitrary: g)
  case 0
  then show ?case by simp
next
  case (Suc n)
  show ?case
  proof (cases "CurTok g = tok_eof")
    case True
    with Suc.prems show ?thesis by simp
  next
    case False
    with Suc.prems obtain g1 where "MainLoop n g1 = Some g'"
      by (auto simp: bind_eq_Some_iff split: if_splits)
    then show ?thesis by (rule Suc.IH)
  qed
qed

lemma never_eof_initial:
  "CHR 0xFF \<notin> set input \<Longrightarrow> never_eof (install_binops (initial input))"
  by (simp add: never_eof_def install_binops_def initial_def ord_def)


lemma gettok_at_EOF: "LastChar g = EOF \<Longrightarrow> gettok f (Suc (Suc n)) g = Some (tok_eof, g)"
  by (simp add: isspace_def isalpha_def isdigit_def ord_values)

lemma MainLoop_at_eof: "CurTok g = tok_eof \<Longrightarrow> MainLoop (Suc n) g = Some g"
  by simp

lemma main_returns_on_0xFF:
  "map_option (\<lambda>g. (CurTok g, stderr g)) (main 30 (''1+1;'' @ [CHR 0xFF])) =
     Some (tok_eof, [''ready > '', ''Parsed a top-level expr\<newline>''])"
  by (simp add: ev eval_nat_numeral main_def HandleTopLevelExpression_def ParseTopLevelExpr_def)

text \<open>
  C4. \<^verbatim>\<open>gettok\<close> returns \<^verbatim>\<open>tok_eof\<close> when its pending character is \<^verbatim>\<open>EOF\<close>, and \<^verbatim>\<open>MainLoop\<close>
  returns when the current token is \<^verbatim>\<open>tok_eof\<close> and in no other state (lemmas
  \<open>gettok_at_EOF\<close>, \<open>MainLoop_at_eof\<close>, \<open>MainLoop_returns_at_eof\<close>). But \<^verbatim>\<open>getBufChar\<close> does not
  look at the outcome of \<^verbatim>\<open>std::getline\<close>: at the end of the input it appends a newline to
  the buffer and goes on handing out characters, none of which is \<^verbatim>\<open>EOF\<close>. On every input
  without the byte \<^verbatim>\<open>0xFF\<close>, the empty one included, \<^verbatim>\<open>main\<close> does not return, whatever the
  fuel: a session whose input is exhausted does not halt.
\<close>

theorem main_never_returns:
  assumes "CHR 0xFF \<notin> set input"
  shows "main n input = None"
proof (cases "getNextToken main_cpp n (install_binops (initial input))")
  case None
  then show ?thesis by (simp add: main_def)
next
  case (Some x)
  with keeps_getNextToken[OF never_eof_initial[OF assms], of main_cpp n]
  have "never_eof (snd x)" by (simp add: keeps_def)
  then have "MainLoop n (snd x) = None" by (rule MainLoop_never_returns)
  with Some show ?thesis by (simp add: main_def case_prod_unfold)
qed


theorem main_never_returns_witness:
  "main 1000 ''1+1;'' = None \<and> main 1000 [] = None"
  using main_never_returns[of "''1+1;''" 1000] main_never_returns[of "[]" 1000] by simp

end
